theory Spec2Isabelle
  imports Main "HOL-Library.Word"
begin

unbundle bit_operations_syntax

section \<open>Machine state of the CHIP-8 interpreter (chip.c)\<close>

type_synonym u8 = "8 word"
type_synonym u16 = "16 word"
type_synonym u32 = "32 word"
type_synonym u64 = "64 word"

datatype DisplayMode = WRAP | CLAMP

text \<open>Hardware constants of chip.c.\<close>

definition MEMORY_SIZE :: nat where "MEMORY_SIZE = 4096"
definition REGISTER_COUNT :: nat where "REGISTER_COUNT = 16"
definition STACK_SIZE :: nat where "STACK_SIZE = 24"
definition OPCODE_SIZE :: nat where "OPCODE_SIZE = 2"
definition TIMER_RATE :: nat where "TIMER_RATE = 60"
definition DISPLAY_WIDTH :: nat where "DISPLAY_WIDTH = 64"
definition DISPLAY_HEIGHT :: nat where "DISPLAY_HEIGHT = 32"

text \<open>
  The static variables of chip.c, gathered in one record. The arrays are lists; the
  function-local static \<open>start\<close> of \<open>instruction_cycle\<close> is the field \<open>timer_start\<close>.
\<close>

record chip =
  memory :: "u8 list"
  registers :: "u8 list"
  stack :: "u16 list"
  display :: "u8 list"
  pc :: u16
  address_register :: u16
  stack_register :: u8
  delay_timer :: u8
  sound_timer :: u8
  displaymode :: DisplayMode
  timer_start :: u32

text \<open>
  The ways a handler can stop: \<open>Fatal\<close> is a failed \<open>ERRCHK\<close> (the process exits),
  \<open>UnknownOperation\<close> is the exit of the decoder on an opcode it does not know, and
  \<open>OutOfBounds\<close> is an array access outside the array that the C code performs
  with no check in front of it (undefined behaviour in C).
\<close>

datatype error = Fatal | UnknownOperation | OutOfBounds

definition bindE :: "error + 'a \<Rightarrow> ('a \<Rightarrow> error + 'b) \<Rightarrow> error + 'b" where
  "bindE m f = (case m of Inl e \<Rightarrow> Inl e | Inr x \<Rightarrow> f x)"

definition ERRCHK :: "bool \<Rightarrow> error + unit" where
  "ERRCHK retval = (if \<not> retval then Inl Fatal else Inr ())"

text \<open>The sizes the arrays are declared with.\<close>

definition wf_chip :: "chip \<Rightarrow> bool" where
  "wf_chip s \<longleftrightarrow>
     length (memory s) = MEMORY_SIZE \<and> length (registers s) = REGISTER_COUNT \<and>
     length (stack s) = STACK_SIZE \<and> length (display s) = DISPLAY_WIDTH * DISPLAY_HEIGHT"

definition init_chip :: chip where
  "init_chip = \<lparr> memory = replicate MEMORY_SIZE 0, registers = replicate REGISTER_COUNT 0,
     stack = replicate STACK_SIZE 0, display = replicate (DISPLAY_WIDTH * DISPLAY_HEIGHT) 0,
     pc = 0x200, address_register = 0, stack_register = 0, delay_timer = 0,
     sound_timer = 0, displaymode = CLAMP, timer_start = 0 \<rparr>"

subsection \<open>Array accesses\<close>

definition reg_read :: "u8 \<Rightarrow> chip \<Rightarrow> error + u8" where
  "reg_read vx s =
     (if unat vx < REGISTER_COUNT then Inr (registers s ! unat vx) else Inl OutOfBounds)"

definition reg_write :: "u8 \<Rightarrow> u8 \<Rightarrow> chip \<Rightarrow> error + chip" where
  "reg_write vx v s =
     (if unat vx < REGISTER_COUNT then Inr (s\<lparr>registers := (registers s)[unat vx := v]\<rparr>)
      else Inl OutOfBounds)"

definition mem_read :: "nat \<Rightarrow> chip \<Rightarrow> error + u8" where
  "mem_read a s = (if a < MEMORY_SIZE then Inr (memory s ! a) else Inl OutOfBounds)"

definition mem_write :: "nat \<Rightarrow> u8 \<Rightarrow> chip \<Rightarrow> error + chip" where
  "mem_write a v s =
     (if a < MEMORY_SIZE then Inr (s\<lparr>memory := (memory s)[a := v]\<rparr>) else Inl OutOfBounds)"

definition of_bool8 :: "bool \<Rightarrow> u8" where
  "of_bool8 b = (if b then 1 else 0)"

section \<open>Instruction handlers\<close>

subsection \<open>Arithmetic on registers: 7XNN, 8XY4, 8XY5, 8XY6, 8XY7, 8XYE\<close>

text \<open>7XNN: \<open>registers[vx] = registers[vx] + val\<close>.\<close>

definition add :: "u8 \<Rightarrow> u8 \<Rightarrow> chip \<Rightarrow> error + chip" where
  "add vx val s = bindE (reg_read vx s) (\<lambda>rx. reg_write vx (rx + val) s)"

text \<open>
  8XY4: \<open>registers[vx] += registers[vy]\<close>, then
  \<open>registers[0xf] = registers[vy] > registers[vx]\<close>, both read after the addition.
\<close>

definition add_reg :: "u8 \<Rightarrow> u8 \<Rightarrow> chip \<Rightarrow> error + chip" where
  "add_reg vx vy s =
     bindE (reg_read vx s) (\<lambda>rx.
     bindE (reg_read vy s) (\<lambda>ry.
     bindE (reg_write vx (rx + ry) s) (\<lambda>s1.
     bindE (reg_read vy s1) (\<lambda>ry1.
     bindE (reg_read vx s1) (\<lambda>rx1.
       reg_write 0xf (of_bool8 (ry1 > rx1)) s1)))))"

text \<open>
  8XY5: \<open>registers[0xf] = registers[vx] > registers[vy]\<close>, then
  \<open>registers[vx] -= registers[vy]\<close>, both read after the flag was written.
\<close>

definition sub_reg :: "u8 \<Rightarrow> u8 \<Rightarrow> chip \<Rightarrow> error + chip" where
  "sub_reg vx vy s =
     bindE (reg_read vx s) (\<lambda>rx.
     bindE (reg_read vy s) (\<lambda>ry.
     bindE (reg_write 0xf (of_bool8 (rx > ry)) s) (\<lambda>s1.
     bindE (reg_read vx s1) (\<lambda>rx1.
     bindE (reg_read vy s1) (\<lambda>ry1.
       reg_write vx (rx1 - ry1) s1)))))"

text \<open>8XY6: \<open>registers[0xf] = registers[vx] & 0x1\<close>, then \<open>registers[vx] >>= 1\<close>.\<close>

definition shr_reg :: "u8 \<Rightarrow> chip \<Rightarrow> error + chip" where
  "shr_reg vx s =
     bindE (reg_read vx s) (\<lambda>rx.
     bindE (reg_write 0xf (rx AND 0x1) s) (\<lambda>s1.
     bindE (reg_read vx s1) (\<lambda>rx1.
       reg_write vx (drop_bit 1 rx1) s1)))"

text \<open>
  8XY7: \<open>registers[0xf] = registers[vy] > registers[vx]\<close>, then
  \<open>registers[vx] = registers[vy] - registers[vx]\<close>.
\<close>

definition subn_reg :: "u8 \<Rightarrow> u8 \<Rightarrow> chip \<Rightarrow> error + chip" where
  "subn_reg vx vy s =
     bindE (reg_read vy s) (\<lambda>ry.
     bindE (reg_read vx s) (\<lambda>rx.
     bindE (reg_write 0xf (of_bool8 (ry > rx)) s) (\<lambda>s1.
     bindE (reg_read vy s1) (\<lambda>ry1.
     bindE (reg_read vx s1) (\<lambda>rx1.
       reg_write vx (ry1 - rx1) s1)))))"

text \<open>8XYE: \<open>registers[0xf] = registers[vx] >> 7\<close>, then \<open>registers[vx] <<= 1\<close>.\<close>

definition shl_reg :: "u8 \<Rightarrow> chip \<Rightarrow> error + chip" where
  "shl_reg vx s =
     bindE (reg_read vx s) (\<lambda>rx.
     bindE (reg_write 0xf (drop_bit 7 rx) s) (\<lambda>s1.
     bindE (reg_read vx s1) (\<lambda>rx1.
       reg_write vx (push_bit 1 rx1) s1)))"

subsection \<open>Control flow: 00EE, 1NNN, 2NNN\<close>

text \<open>
  00EE: \<open>ERRCHK(stack_register); --stack_register; pc = stack[stack_register]\<close>.
\<close>

definition ret :: "chip \<Rightarrow> error + chip" where
  "ret s =
     bindE (ERRCHK (stack_register s \<noteq> 0)) (\<lambda>_.
       if unat (stack_register s - 1) < STACK_SIZE
       then Inr (s\<lparr>stack_register := stack_register s - 1,
                   pc := stack s ! unat (stack_register s - 1)\<rparr>)
       else Inl OutOfBounds)"

text \<open>
  1NNN: \<open>ERRCHK(pc - OPCODE_SIZE != addr); pc = addr\<close>. \<open>OPCODE_SIZE\<close> is a
  \<open>sizeof\<close>, so the subtraction and the comparison are done in the unsigned 64-bit
  type \<open>size_t\<close>, where \<open>pc - 2\<close> wraps for \<open>pc < 2\<close>.
\<close>

definition jmp :: "u16 \<Rightarrow> chip \<Rightarrow> error + chip" where
  "jmp addr s =
     bindE (ERRCHK ((ucast (pc s) :: u64) - of_nat OPCODE_SIZE \<noteq> ucast addr)) (\<lambda>_.
       Inr (s\<lparr>pc := addr\<rparr>))"

text \<open>
  2NNN: \<open>ERRCHK(stack_register < STACK_SIZE); stack[stack_register++] = pc; pc = addr\<close>.
\<close>

definition call :: "u16 \<Rightarrow> chip \<Rightarrow> error + chip" where
  "call addr s =
     bindE (ERRCHK (unat (stack_register s) < STACK_SIZE)) (\<lambda>_.
       Inr (s\<lparr>stack := (stack s)[unat (stack_register s) := pc s],
               stack_register := stack_register s + 1,
               pc := addr\<rparr>))"

subsection \<open>Random byte: CXNN\<close>

text \<open>
  \<open>registers[vx] = (uint8_t)(rand() % 255) & mask (here msk)\<close>. The value \<open>r\<close> is what
  \<open>rand()\<close> returned, an integer from 0 to \<open>RAND_MAX\<close>.
\<close>

definition rnd :: "u8 \<Rightarrow> u8 \<Rightarrow> nat \<Rightarrow> chip \<Rightarrow> error + chip" where
  "rnd vx msk r s = reg_write vx ((of_nat (r mod 255) :: u8) AND msk) s"

subsection \<open>Sprite drawing: DXYN\<close>

definition display_idx :: "u8 \<Rightarrow> u8 \<Rightarrow> error + nat" where
  "display_idx i j =
     bindE (ERRCHK (unat i < DISPLAY_WIDTH)) (\<lambda>_.
     bindE (ERRCHK (unat j < DISPLAY_HEIGHT)) (\<lambda>_.
       Inr (unat i + unat j * DISPLAY_WIDTH)))"

definition disp_read :: "nat \<Rightarrow> chip \<Rightarrow> error + u8" where
  "disp_read idx s =
     (if idx < DISPLAY_WIDTH * DISPLAY_HEIGHT then Inr (display s ! idx) else Inl OutOfBounds)"

definition disp_write :: "nat \<Rightarrow> u8 \<Rightarrow> chip \<Rightarrow> error + chip" where
  "disp_write idx v s =
     (if idx < DISPLAY_WIDTH * DISPLAY_HEIGHT then Inr (s\<lparr>display := (display s)[idx := v]\<rparr>)
      else Inl OutOfBounds)"

text \<open>
  The two statements at the end of the inner loop body:
  \<open>if (display[display_idx(i, j)]) registers[0xf] = 0x1;\<close> and
  \<open>display[display_idx(i, j)] ^= 1;\<close>.
\<close>

definition draw_pixel :: "u8 \<Rightarrow> u8 \<Rightarrow> chip \<Rightarrow> error + chip" where
  "draw_pixel i j s =
     bindE (display_idx i j) (\<lambda>idx.
     bindE (disp_read idx s) (\<lambda>d.
     bindE (if d \<noteq> 0 then reg_write 0xf 0x1 s else Inr s) (\<lambda>s1.
     bindE (display_idx i j) (\<lambda>idx1.
     bindE (disp_read idx1 s1) (\<lambda>d1.
       disp_write idx1 (d1 XOR 1) s1)))))"

text \<open>
  The inner loop \<open>for (int i1 = 0; i1 < 8; ++i1)\<close> of \<open>draw\<close>, from \<open>i1\<close> on, for
  the sprite row \<open>j1\<close>. Under WRAP the coordinates are reduced modulo the display
  size; under CLAMP they are the sums truncated to \<open>uint8_t\<close>, and \<open>break\<close> leaves
  the loop.
\<close>

function draw_row :: "u8 \<Rightarrow> u8 \<Rightarrow> nat \<Rightarrow> nat \<Rightarrow> chip \<Rightarrow> error + chip" where
  "draw_row i0 j0 j1 i1 s =
     (if i1 < 8 then
        (case mem_read (unat (address_register s) + j1) s of
           Inl e \<Rightarrow> Inl e
         | Inr b \<Rightarrow>
             if b AND drop_bit i1 0x80 \<noteq> 0 then
               (if displaymode s = WRAP then
                  (case draw_pixel (of_nat ((unat i0 + i1) mod DISPLAY_WIDTH))
                                   (of_nat ((unat j0 + j1) mod DISPLAY_HEIGHT)) s of
                     Inl e \<Rightarrow> Inl e
                   | Inr s1 \<Rightarrow> draw_row i0 j0 j1 (Suc i1) s1)
                else
                  (if unat (of_nat (unat i0 + i1) :: u8) \<ge> DISPLAY_WIDTH \<or>
                      unat (of_nat (unat j0 + j1) :: u8) \<ge> DISPLAY_HEIGHT
                   then Inr s
                   else
                     (case draw_pixel (of_nat (unat i0 + i1)) (of_nat (unat j0 + j1)) s of
                        Inl e \<Rightarrow> Inl e
                      | Inr s1 \<Rightarrow> draw_row i0 j0 j1 (Suc i1) s1)))
             else draw_row i0 j0 j1 (Suc i1) s)
      else Inr s)"
  by pat_completeness auto
termination
  by (relation "measure (\<lambda>(i0, j0, j1, i1, s). 8 - i1)") auto

text \<open>The outer loop \<open>for (int j1 = 0; j1 < height; ++j1)\<close>, from \<open>j1\<close> on.\<close>

function draw_rows :: "u8 \<Rightarrow> u8 \<Rightarrow> nat \<Rightarrow> nat \<Rightarrow> chip \<Rightarrow> error + chip" where
  "draw_rows i0 j0 height j1 s =
     (if j1 < height then
        (case draw_row i0 j0 j1 0 s of
           Inl e \<Rightarrow> Inl e
         | Inr s1 \<Rightarrow> draw_rows i0 j0 height (Suc j1) s1)
      else Inr s)"
  by pat_completeness auto
termination
  by (relation "measure (\<lambda>(i0, j0, height, j1, s). height - j1)") auto

definition draw :: "u8 \<Rightarrow> u8 \<Rightarrow> u8 \<Rightarrow> chip \<Rightarrow> error + chip" where
  "draw vx vy height s =
     bindE (reg_read vx s) (\<lambda>i0.
     bindE (reg_read vy s) (\<lambda>j0.
     bindE (reg_write 0xf 0x0 s) (\<lambda>s1.
       draw_rows i0 j0 (unat height) 0 s1)))"

subsection \<open>Memory instructions: FX33, FX55, FX65\<close>

text \<open>
  FX33: three stores, \<open>registers[vx] / 100\<close>, \<open>(registers[vx] / 10) % 10\<close> and
  \<open>registers[vx] % 10\<close>, at \<open>address_register + 0, 1, 2\<close>; no check of the address.
\<close>

definition bcd :: "u8 \<Rightarrow> chip \<Rightarrow> error + chip" where
  "bcd vx s =
     bindE (reg_read vx s) (\<lambda>r0.
     bindE (mem_write (unat (address_register s) + 0) (r0 div 100) s) (\<lambda>s1.
     bindE (reg_read vx s1) (\<lambda>r1.
     bindE (mem_write (unat (address_register s1) + 1) ((r1 div 10) mod 10) s1) (\<lambda>s2.
     bindE (reg_read vx s2) (\<lambda>r2.
       mem_write (unat (address_register s2) + 2) (r2 mod 10) s2)))))"

text \<open>
  FX55: \<open>ERRCHK(vx < REGISTER_COUNT)\<close>, then
  \<open>for (uint8_t i = 0; i <= vx; ++i) memory[address_register + i] = registers[i]\<close>.
  The loop runs only after the check, so its 8-bit counter stays below 17 and is
  a natural number here. The sum \<open>address_register + i\<close> is an \<open>int\<close> and does not wrap.
\<close>

function reg_dump_loop :: "nat \<Rightarrow> nat \<Rightarrow> chip \<Rightarrow> error + chip" where
  "reg_dump_loop i vx s =
     (if i \<le> vx then
        (case reg_read (of_nat i) s of
           Inl e \<Rightarrow> Inl e
         | Inr r \<Rightarrow>
            (case mem_write (unat (address_register s) + i) r s of
               Inl e \<Rightarrow> Inl e
             | Inr s1 \<Rightarrow> reg_dump_loop (Suc i) vx s1))
      else Inr s)"
  by pat_completeness auto
termination
  by (relation "measure (\<lambda>(i, vx, s). Suc vx - i)") auto

definition reg_dump :: "u8 \<Rightarrow> chip \<Rightarrow> error + chip" where
  "reg_dump vx s =
     bindE (ERRCHK (unat vx < REGISTER_COUNT)) (\<lambda>_. reg_dump_loop 0 (unat vx) s)"

text \<open>
  FX65: \<open>ERRCHK(vx < REGISTER_COUNT)\<close>, then for \<open>i\<close> from 0 to \<open>vx\<close>:
  \<open>ERRCHK(address_register + i < MEMORY_SIZE); registers[i] = memory[address_register + i]\<close>.
\<close>

function reg_load_loop :: "nat \<Rightarrow> nat \<Rightarrow> chip \<Rightarrow> error + chip" where
  "reg_load_loop i vx s =
     (if i \<le> vx then
        (case ERRCHK (unat (address_register s) + i < MEMORY_SIZE) of
           Inl e \<Rightarrow> Inl e
         | Inr _ \<Rightarrow>
            (case mem_read (unat (address_register s) + i) s of
               Inl e \<Rightarrow> Inl e
             | Inr m \<Rightarrow>
                (case reg_write (of_nat i) m s of
                   Inl e \<Rightarrow> Inl e
                 | Inr s1 \<Rightarrow> reg_load_loop (Suc i) vx s1)))
      else Inr s)"
  by pat_completeness auto
termination
  by (relation "measure (\<lambda>(i, vx, s). Suc vx - i)") auto

definition reg_load :: "u8 \<Rightarrow> chip \<Rightarrow> error + chip" where
  "reg_load vx s =
     bindE (ERRCHK (unat vx < REGISTER_COUNT)) (\<lambda>_. reg_load_loop 0 (unat vx) s)"

subsection \<open>Timer driver\<close>

text \<open>
  The first block of \<open>instruction_cycle\<close>; \<open>now\<close> is the value of \<open>SDL_GetTicks()\<close>.
  The difference is unsigned 32-bit, and \<open>1000 / TIMER_RATE\<close> is 16.
\<close>

definition timer_driver :: "u32 \<Rightarrow> chip \<Rightarrow> chip" where
  "timer_driver now s =
     (if unat (now - timer_start s) \<ge> 1000 div TIMER_RATE then
        (let s1 = (if delay_timer s \<noteq> 0 then s\<lparr>delay_timer := delay_timer s - 1\<rparr> else s);
             s2 = (if sound_timer s1 \<noteq> 0 then s1\<lparr>sound_timer := sound_timer s1 - 1\<rparr> else s1)
         in s2\<lparr>timer_start := now\<rparr>)
      else s)"

subsection \<open>Sequences of calls and returns\<close>

text \<open>
  A run of \<open>call\<close> handlers: each element \<open>(p, addr)\<close> is one 2NNN instruction
  executed when the program counter, after the fetch, is \<open>p\<close>; whatever ran
  between two calls left the stack alone and moved the program counter to \<open>p\<close>.
\<close>

fun calls :: "(u16 \<times> u16) list \<Rightarrow> chip \<Rightarrow> error + chip" where
  "calls [] s = Inr s"
| "calls ((p, addr) # cs) s =
     (case call addr (s\<lparr>pc := p\<rparr>) of Inl e \<Rightarrow> Inl e | Inr s1 \<Rightarrow> calls cs s1)"

text \<open>A run of \<open>n\<close> \<open>ret\<close> handlers; it collects the program counter each one restores.\<close>

fun rets :: "nat \<Rightarrow> chip \<Rightarrow> error + (u16 list \<times> chip)" where
  "rets 0 s = Inr ([], s)"
| "rets (Suc n) s =
     (case ret s of
        Inl e \<Rightarrow> Inl e
      | Inr s1 \<Rightarrow>
         (case rets n s1 of Inl e \<Rightarrow> Inl e | Inr (ps, s2) \<Rightarrow> Inr (pc s1 # ps, s2)))"

section \<open>The remaining handlers and the instruction cycle\<close>

text \<open>
  What the host supplies during one cycle: the value of \<open>SDL_GetTicks()\<close>, the state
  of the sixteen key lines as \<open>keydown\<close> finds them, and the value of \<open>rand()\<close>.
\<close>

record host =
  ticks :: u32
  keystate :: "nat \<Rightarrow> bool"
  rand_value :: nat

text \<open>
  \<open>keydown\<close> indexes the 16-entry table \<open>keys\<close> with its argument, unchecked.
\<close>

definition keydown :: "host \<Rightarrow> u8 \<Rightarrow> error + bool" where
  "keydown h code = (if unat code < 16 then Inr (keystate h (unat code)) else Inl OutOfBounds)"

text \<open>\<open>pc += OPCODE_SIZE\<close>, truncated to the 16 bits of \<open>pc\<close>.\<close>

definition skip :: "chip \<Rightarrow> chip" where
  "skip s = s\<lparr>pc := pc s + of_nat OPCODE_SIZE\<rparr>"

text \<open>
  00E0: every cell \<open>display[display_idx(i, j)]\<close>, row by row, is set to 0;
  \<open>display_idx\<close> is called inside its bounds only.
\<close>

definition cls :: "chip \<Rightarrow> error + chip" where
  "cls s = Inr (s\<lparr>display :=
     foldl (\<lambda>d j. foldl (\<lambda>d i. d[i + j * DISPLAY_WIDTH := 0]) d [0..<DISPLAY_WIDTH])
       (display s) [0..<DISPLAY_HEIGHT]\<rparr>)"

text \<open>0NNN: not implemented, a no-op.\<close>

definition chip8_syscall :: "u16 \<Rightarrow> chip \<Rightarrow> error + chip" where
  "chip8_syscall addr s = Inr s"

text \<open>3XNN, 4XNN, 5XY0, 9XY0: the conditional skips.\<close>

definition se :: "u8 \<Rightarrow> u8 \<Rightarrow> chip \<Rightarrow> error + chip" where
  "se vx val s = bindE (reg_read vx s) (\<lambda>rx. Inr (if rx = val then skip s else s))"

definition sne :: "u8 \<Rightarrow> u8 \<Rightarrow> chip \<Rightarrow> error + chip" where
  "sne vx val s = bindE (reg_read vx s) (\<lambda>rx. Inr (if rx \<noteq> val then skip s else s))"

definition se_reg :: "u8 \<Rightarrow> u8 \<Rightarrow> chip \<Rightarrow> error + chip" where
  "se_reg vx vy s =
     bindE (reg_read vx s) (\<lambda>rx.
     bindE (reg_read vy s) (\<lambda>ry. Inr (if rx = ry then skip s else s)))"

definition sne_reg :: "u8 \<Rightarrow> u8 \<Rightarrow> chip \<Rightarrow> error + chip" where
  "sne_reg vx vy s =
     bindE (reg_read vx s) (\<lambda>rx.
     bindE (reg_read vy s) (\<lambda>ry. Inr (if rx \<noteq> ry then skip s else s)))"

text \<open>6XNN, 8XY0, 8XY1, 8XY2, 8XY3: loads and bitwise operations.\<close>

definition ld :: "u8 \<Rightarrow> u8 \<Rightarrow> chip \<Rightarrow> error + chip" where
  "ld vx val s = reg_write vx val s"

definition ld_reg :: "u8 \<Rightarrow> u8 \<Rightarrow> chip \<Rightarrow> error + chip" where
  "ld_reg vx vy s = bindE (reg_read vy s) (\<lambda>ry. reg_write vx ry s)"

definition or_reg :: "u8 \<Rightarrow> u8 \<Rightarrow> chip \<Rightarrow> error + chip" where
  "or_reg vx vy s =
     bindE (reg_read vx s) (\<lambda>rx.
     bindE (reg_read vy s) (\<lambda>ry. reg_write vx (rx OR ry) s))"

definition and_reg :: "u8 \<Rightarrow> u8 \<Rightarrow> chip \<Rightarrow> error + chip" where
  "and_reg vx vy s =
     bindE (reg_read vx s) (\<lambda>rx.
     bindE (reg_read vy s) (\<lambda>ry. reg_write vx (rx AND ry) s))"

definition xor_reg :: "u8 \<Rightarrow> u8 \<Rightarrow> chip \<Rightarrow> error + chip" where
  "xor_reg vx vy s =
     bindE (reg_read vx s) (\<lambda>rx.
     bindE (reg_read vy s) (\<lambda>ry. reg_write vx (rx XOR ry) s))"

text \<open>ANNN and BNNN; the sum \<open>registers[0x0] + offset\<close> is truncated to 16 bits.\<close>

definition ld_addr :: "u16 \<Rightarrow> chip \<Rightarrow> error + chip" where
  "ld_addr addr s = Inr (s\<lparr>address_register := addr\<rparr>)"

definition jmp_relative :: "u16 \<Rightarrow> chip \<Rightarrow> error + chip" where
  "jmp_relative offset s =
     bindE (reg_read 0x0 s) (\<lambda>r0. Inr (s\<lparr>pc := ucast r0 + offset\<rparr>))"

text \<open>EX9E and EXA1.\<close>

definition skip_p :: "host \<Rightarrow> u8 \<Rightarrow> chip \<Rightarrow> error + chip" where
  "skip_p h vx s =
     bindE (reg_read vx s) (\<lambda>rx.
     bindE (keydown h rx) (\<lambda>k. Inr (if k then skip s else s)))"

definition skip_np :: "host \<Rightarrow> u8 \<Rightarrow> chip \<Rightarrow> error + chip" where
  "skip_np h vx s =
     bindE (reg_read vx s) (\<lambda>rx.
     bindE (keydown h rx) (\<lambda>k. Inr (if \<not> k then skip s else s)))"

text \<open>
  FX0A: the loop \<open>for (uint8_t i = 0; i < 16; ++i)\<close> from \<open>i\<close> on; the first key
  that is down is stored and ends the loop, and after the last key the program
  counter is moved back by one instruction.
\<close>

function getkey_loop :: "host \<Rightarrow> u8 \<Rightarrow> nat \<Rightarrow> chip \<Rightarrow> error + chip" where
  "getkey_loop h vx i s =
     (if i < 16 then
        (case keydown h (of_nat i) of
           Inl e \<Rightarrow> Inl e
         | Inr k \<Rightarrow>
             if k then reg_write vx (of_nat i) s
             else getkey_loop h vx (Suc i)
                    (if i = 15 then s\<lparr>pc := pc s - of_nat OPCODE_SIZE\<rparr> else s))
      else Inr s)"
  by pat_completeness auto
termination
  by (relation "measure (\<lambda>(h, vx, i, s). 16 - i)") auto

definition getkey :: "host \<Rightarrow> u8 \<Rightarrow> chip \<Rightarrow> error + chip" where
  "getkey h vx s = getkey_loop h vx 0 s"

text \<open>FX07, FX15, FX18: the timers.\<close>

definition ld_delay_to_reg :: "u8 \<Rightarrow> chip \<Rightarrow> error + chip" where
  "ld_delay_to_reg vx s = reg_write vx (delay_timer s) s"

definition ld_reg_to_delay :: "u8 \<Rightarrow> chip \<Rightarrow> error + chip" where
  "ld_reg_to_delay vx s = bindE (reg_read vx s) (\<lambda>rx. Inr (s\<lparr>delay_timer := rx\<rparr>))"

definition ld_sound :: "u8 \<Rightarrow> chip \<Rightarrow> error + chip" where
  "ld_sound vx s = bindE (reg_read vx s) (\<lambda>rx. Inr (s\<lparr>sound_timer := rx\<rparr>))"

text \<open>
  FX1E: \<open>registers[0xf] = (address_register + registers[vx]) > 0x0FFF\<close>, a comparison of
  \<open>int\<close>s, then \<open>address_register += registers[vx]\<close> with the register read again.
\<close>

definition add_addr :: "u8 \<Rightarrow> chip \<Rightarrow> error + chip" where
  "add_addr vx s =
     bindE (reg_read vx s) (\<lambda>rx.
     bindE (reg_write 0xf (of_bool8 (unat (address_register s) + unat rx > 0x0FFF)) s) (\<lambda>s1.
     bindE (reg_read vx s1) (\<lambda>rx1.
       Inr (s1\<lparr>address_register := address_register s1 + ucast rx1\<rparr>))))"

text \<open>FX29: \<open>ERRCHK(registers[vx] <= 0xf)\<close>, then the address of the glyph, 5 bytes each.\<close>

definition ld_sprite :: "u8 \<Rightarrow> chip \<Rightarrow> error + chip" where
  "ld_sprite vx s =
     bindE (reg_read vx s) (\<lambda>rx.
     bindE (ERRCHK (rx \<le> 0xf)) (\<lambda>_.
       Inr (s\<lparr>address_register := 0x0 + ucast rx * 5\<rparr>)))"

subsection \<open>Fetch, decode, execute\<close>

text \<open>\<open>convert_endianess\<close>: reverses the byte order, \<open>0xAABB\<close> to \<open>0xBBAA\<close>.\<close>

definition convert_endianess :: "u16 \<Rightarrow> u16" where
  "convert_endianess val = push_bit 8 (val AND 0x00ff) OR drop_bit 8 (val AND 0xff00)"

text \<open>
  The fetch: \<open>convert_endianess\<close> applied to the \<open>uint16_t\<close> found at \<open>&memory[pc]\<close>,
  that is a 16-bit load of the bytes at \<open>pc\<close> and \<open>pc + 1\<close> on a little-endian host,
  then the byte swap.
\<close>

definition fetch :: "chip \<Rightarrow> error + u16" where
  "fetch s =
     bindE (mem_read (unat (pc s)) s) (\<lambda>b0.
     bindE (mem_read (unat (pc s) + 1) s) (\<lambda>b1.
       Inr (convert_endianess (ucast b0 OR push_bit 8 (ucast b1)))))"

text \<open>The three exits \<open>exit(EXIT_FAILURE)\<close> of the decoder on an opcode it does not know.\<close>

definition unknown_operation :: "error + chip" where
  "unknown_operation = Inl UnknownOperation"

text \<open>The \<open>switch\<close> of \<open>instruction_cycle\<close>, on the state after the fetch.\<close>

definition execute :: "host \<Rightarrow> u16 \<Rightarrow> chip \<Rightarrow> error + chip" where
  "execute h opcode s =
     (let NNN = opcode AND 0x0fff;
          NN = (ucast (opcode AND 0x00ff) :: u8);
          N = (ucast (opcode AND 0x000f) :: u8);
          X = (ucast (drop_bit 8 (opcode AND 0x0f00)) :: u8);
          Y = (ucast (drop_bit 4 (opcode AND 0x00f0)) :: u8);
          class = opcode AND 0xf000
      in
      if class = 0x0000 then
        (if opcode = 0x00EE then ret s
         else if opcode = 0x00E0 then cls s
         else chip8_syscall NNN s)
      else if class = 0x1000 then jmp NNN s
      else if class = 0x2000 then call NNN s
      else if class = 0x3000 then se X NN s
      else if class = 0x4000 then sne X NN s
      else if class = 0x5000 then se_reg X Y s
      else if class = 0x6000 then ld X NN s
      else if class = 0x7000 then add X NN s
      else if class = 0x8000 then
        (let func_type = opcode AND 0x000f in
         if func_type = 0x0000 then ld_reg X Y s
         else if func_type = 0x0001 then or_reg X Y s
         else if func_type = 0x0002 then and_reg X Y s
         else if func_type = 0x0003 then xor_reg X Y s
         else if func_type = 0x0004 then add_reg X Y s
         else if func_type = 0x0005 then sub_reg X Y s
         else if func_type = 0x0006 then shr_reg X s
         else if func_type = 0x0007 then subn_reg X Y s
         else if func_type = 0x000e then shl_reg X s
         else unknown_operation)
      else if class = 0x9000 then sne_reg X Y s
      else if class = 0xA000 then ld_addr NNN s
      else if class = 0xB000 then jmp_relative NNN s
      else if class = 0xC000 then rnd X NN (rand_value h) s
      else if class = 0xD000 then draw X Y N s
      else if class = 0xE000 then
        (let func_type = opcode AND 0x00ff in
         if func_type = 0x009e then skip_p h X s
         else if func_type = 0x00a1 then skip_np h X s
         else unknown_operation)
      else if class = 0xF000 then
        (let func_type = opcode AND 0x00ff in
         if func_type = 0x000a then getkey h X s
         else if func_type = 0x0007 then ld_delay_to_reg X s
         else if func_type = 0x0015 then ld_reg_to_delay X s
         else if func_type = 0x0018 then ld_sound X s
         else if func_type = 0x001e then add_addr X s
         else if func_type = 0x0029 then ld_sprite X s
         else if func_type = 0x0033 then bcd X s
         else if func_type = 0x0055 then reg_dump X s
         else if func_type = 0x0065 then reg_load X s
         else unknown_operation)
      else unknown_operation)"

text \<open>
  \<open>instruction_cycle\<close>: the timer driver, the fetch, \<open>pc += OPCODE_SIZE\<close>, then decode
  and execute.
\<close>

definition instruction_cycle :: "host \<Rightarrow> chip \<Rightarrow> error + chip" where
  "instruction_cycle h s =
     (let s0 = timer_driver (ticks h) s in
      bindE (fetch s0) (\<lambda>opcode. execute h opcode (skip s0)))"

section \<open>Properties\<close>

lemmas consts_defs = MEMORY_SIZE_def REGISTER_COUNT_def STACK_SIZE_def OPCODE_SIZE_def
  TIMER_RATE_def DISPLAY_WIDTH_def DISPLAY_HEIGHT_def

lemma bindE_simps [simp]: "bindE (Inl e) f = Inl e" "bindE (Inr x) f = f x"
  by (simp_all add: bindE_def)

lemma ERRCHK_simps [simp]: "ERRCHK True = Inr ()" "ERRCHK False = Inl Fatal"
  by (simp_all add: ERRCHK_def)

lemma wf_init_chip: "wf_chip init_chip"
  by (simp add: wf_chip_def init_chip_def)

lemma unat_of_nat_u8: "i < 256 \<Longrightarrow> unat (of_nat i :: u8) = i"
  by (simp add: unat_of_nat)

lemma unat_ucast_16_64: "unat (ucast (w::u16) :: u64) = unat w"
proof -
  have "unat w < 2 ^ 16" using unsigned_less[of w, where 'a=nat] by simp
  then have "unat w < 2 ^ 64" by simp
  then show ?thesis by (simp add: unsigned_ucast_eq take_bit_nat_eq_self)
qed

subsection \<open>Call and return\<close>

lemma unat_u8_suc: "unat (w :: u8) < 24 \<Longrightarrow> unat (w + 1) = Suc (unat w)"
  using unat_add_lem[of w 1] by simp

lemma u8_suc_nonzero: "unat (w :: u8) < 24 \<Longrightarrow> w + 1 \<noteq> 0"
  using unat_u8_suc[of w] by (auto simp: word_unat_eq_iff)

lemma call_full: "unat (stack_register s) = STACK_SIZE \<Longrightarrow> call addr s = Inl Fatal"
  by (simp add: call_def)

lemma ret_empty: "stack_register s = 0 \<Longrightarrow> ret s = Inl Fatal"
  by (simp add: ret_def)

lemma ret_ok:
  assumes "stack_register s \<noteq> 0" and "unat (stack_register s) \<le> STACK_SIZE"
  shows "ret s = Inr (s\<lparr>stack_register := stack_register s - 1,
                        pc := stack s ! unat (stack_register s - 1)\<rparr>)"
proof -
  have "unat (stack_register s - 1) < unat (stack_register s)"
    using assms(1) by (simp add: unat_minus_one unat_gt_0 word_neq_0_conv)
  then show ?thesis using assms by (simp add: ret_def)
qed

text \<open>The last of \<open>n + 1\<close> returns, seen from the end of the run.\<close>

lemma rets_snoc:
  "rets (Suc n) s =
     (case rets n s of
        Inl e \<Rightarrow> Inl e
      | Inr (ps, s1) \<Rightarrow>
         (case ret s1 of Inl e \<Rightarrow> Inl e | Inr s2 \<Rightarrow> Inr (ps @ [pc s2], s2)))"
proof (induction n arbitrary: s)
  case 0
  show ?case by (simp split: sum.splits)
next
  case (Suc n)
  show ?case
    apply (subst rets.simps(2))
    apply (subst Suc.IH)
    apply (simp split: sum.splits prod.splits)
    done
qed

text \<open>
  From any stack depth that leaves room for the calls: the calls succeed, the
  returns give back the pushed program counters in reverse, and the stack below
  the starting depth is as before.
\<close>

lemma calls_rets:
  "length (stack s) = STACK_SIZE \<Longrightarrow> unat (stack_register s) + length cs \<le> STACK_SIZE \<Longrightarrow>
   \<exists>s1 s2. calls cs s = Inr s1 \<and> rets (length cs) s1 = Inr (rev (map fst cs), s2) \<and>
     unat (stack_register s1) = unat (stack_register s) + length cs \<and>
     stack_register s2 = stack_register s \<and> length (stack s2) = STACK_SIZE \<and>
     (\<forall>k < unat (stack_register s). stack s2 ! k = stack s ! k)"
proof (induction cs arbitrary: s)
  case Nil
  then show ?case by simp
next
  case (Cons c cs)
  obtain p addr where c: "c = (p, addr)" by (cases c)
  let ?sp = "stack_register s"
  let ?s' = "s\<lparr>pc := p, stack := (stack s)[unat ?sp := p], stack_register := ?sp + 1,
               pc := addr\<rparr>"
  have lt: "unat ?sp < 24" using Cons.prems by (simp add: consts_defs)
  have call: "call addr (s\<lparr>pc := p\<rparr>) = Inr ?s'"
    using lt by (simp add: call_def consts_defs)
  have sp': "unat (stack_register ?s') = Suc (unat ?sp)" using lt by (simp add: unat_u8_suc)
  have "length (stack ?s') = STACK_SIZE" using Cons.prems by simp
  moreover have "unat (stack_register ?s') + length cs \<le> STACK_SIZE"
    using Cons.prems sp' by simp
  ultimately obtain s1 s2 where
    ih: "calls cs ?s' = Inr s1" "rets (length cs) s1 = Inr (rev (map fst cs), s2)"
      "unat (stack_register s1) = unat (stack_register ?s') + length cs"
      "stack_register s2 = stack_register ?s'" "length (stack s2) = STACK_SIZE"
      "\<forall>k < unat (stack_register ?s'). stack s2 ! k = stack ?s' ! k"
    using Cons.IH[of ?s'] by blast
  have sp2: "stack_register s2 = ?sp + 1" using ih(4) by simp
  have top: "stack s2 ! unat ?sp = p"
    using ih(6) sp' lt Cons.prems(1) by (simp add: consts_defs)
  have ret2: "ret s2 = Inr (s2\<lparr>stack_register := ?sp, pc := p\<rparr>)"
    using ret_ok[of s2] sp2 top lt u8_suc_nonzero[of ?sp] unat_u8_suc[of ?sp]
    by (simp add: consts_defs)
  let ?s3 = "s2\<lparr>stack_register := ?sp, pc := p\<rparr>"
  have 1: "calls (c # cs) s = Inr s1" using c call ih(1) by simp
  have 2: "rets (length (c # cs)) s1 = Inr (rev (map fst (c # cs)), ?s3)"
  proof -
    have "rets (Suc (length cs)) s1 = Inr (rev (map fst cs) @ [p], ?s3)"
      by (subst rets_snoc) (simp add: ih(2) ret2)
    then show ?thesis using c by (simp del: rets.simps)
  qed
  have 3: "unat (stack_register s1) = unat ?sp + length (c # cs)"
    using ih(3) sp' by simp
  have 4: "\<forall>k < unat ?sp. stack ?s3 ! k = stack s ! k"
    using ih(6) sp' by simp
  show ?case using 1 2 3 4 ih(5)
    by (intro exI[of _ s1] exI[of _ ?s3]) simp
qed

text \<open>
  C4. Starting with an empty call stack, any \<open>N \<le> 24\<close> calls succeed, and the \<open>N\<close>
  returns that follow restore the pushed (post-fetch) program counters in reverse
  order of the pushes. After 24 calls a further call is fatal, whatever its target
  and program counter, and a return on the empty stack is fatal, before the calls
  and after the last return.
\<close>

theorem call_ret_round_trip:
  assumes "length (stack s) = STACK_SIZE" and "stack_register s = 0"
    and "length cs \<le> STACK_SIZE"
  shows "\<exists>s1 s2. calls cs s = Inr s1 \<and>
           rets (length cs) s1 = Inr (rev (map fst cs), s2) \<and>
           (length cs = STACK_SIZE \<longrightarrow> (\<forall>p addr. call addr (s1\<lparr>pc := p\<rparr>) = Inl Fatal)) \<and>
           ret s = Inl Fatal \<and> ret s2 = Inl Fatal"
proof -
  have "unat (stack_register s) + length cs \<le> STACK_SIZE"
    using assms(2,3) by simp
  then obtain s1 s2 where r:
    "calls cs s = Inr s1" "rets (length cs) s1 = Inr (rev (map fst cs), s2)"
    "unat (stack_register s1) = unat (stack_register s) + length cs"
    "stack_register s2 = stack_register s"
    using calls_rets[OF assms(1), of cs] by blast
  have full: "length cs = STACK_SIZE \<longrightarrow> (\<forall>p addr. call addr (s1\<lparr>pc := p\<rparr>) = Inl Fatal)"
    using r(3) assms(2) by (simp add: call_full)
  have "ret s = Inl Fatal" using assms(2) by (rule ret_empty)
  moreover have "ret s2 = Inl Fatal" using r(4) assms(2) by (simp add: ret_empty)
  ultimately show ?thesis using r(1,2) full by blast
qed

theorem call_ret_round_trip_witness:
  "length (stack init_chip) = STACK_SIZE \<and> stack_register init_chip = 0 \<and>
   length ([(0x202, 0x300), (0x302, 0x400)] :: (u16 \<times> u16) list) \<le> STACK_SIZE \<and>
   (\<exists>s1 s2. calls [(0x202, 0x300), (0x302, 0x400)] init_chip = Inr s1 \<and>
      rets 2 s1 = Inr ([0x302, 0x202], s2))"
proof -
  let ?cs = "[(0x202, 0x300), (0x302, 0x400)] :: (u16 \<times> u16) list"
  have h1: "length (stack init_chip) = STACK_SIZE" by (simp add: init_chip_def)
  have h2: "stack_register init_chip = 0" by (simp add: init_chip_def)
  have h3: "length ?cs \<le> STACK_SIZE" by (simp add: consts_defs)
  obtain s1 s2 where "calls ?cs init_chip = Inr s1"
    "rets (length ?cs) s1 = Inr (rev (map fst ?cs), s2)"
    using call_ret_round_trip[OF h1 h2 h3] by blast
  then have "\<exists>s1 s2. calls ?cs init_chip = Inr s1 \<and> rets 2 s1 = Inr ([0x302, 0x202], s2)"
    by (auto simp del: calls.simps rets.simps simp: numeral_2_eq_2)
  then show ?thesis using h1 h2 h3 by blast
qed

subsection \<open>Register block store and load\<close>

lemma reg_dump_loop_ok:
  "length (memory s) = MEMORY_SIZE \<Longrightarrow> vx < REGISTER_COUNT \<Longrightarrow>
   unat (address_register s) + vx < MEMORY_SIZE \<Longrightarrow>
   \<exists>s'. reg_dump_loop i vx s = Inr s' \<and> s' = s\<lparr>memory := memory s'\<rparr> \<and>
        length (memory s') = MEMORY_SIZE \<and>
        (\<forall>k. i \<le> k \<and> k \<le> vx \<longrightarrow>
             memory s' ! (unat (address_register s) + k) = registers s ! k) \<and>
        (\<forall>a. a < unat (address_register s) + i \<or> unat (address_register s) + vx < a \<longrightarrow>
             memory s' ! a = memory s ! a)"
proof (induction i vx s rule: reg_dump_loop.induct)
  case (1 i vx s)
  let ?I = "unat (address_register s)"
  show ?case
  proof (cases "i \<le> vx")
    case False
    then show ?thesis using "1.prems" by (subst reg_dump_loop.simps) auto
  next
    case True
    let ?r = "registers s ! i"
    let ?s1 = "s\<lparr>memory := (memory s)[?I + i := ?r]\<rparr>"
    have i16: "i < 16" using True "1.prems" by (simp add: consts_defs)
    have rd: "reg_read (of_nat i) s = Inr ?r"
      using i16 by (simp add: reg_read_def consts_defs unat_of_nat_u8)
    have wr: "mem_write (?I + i) ?r s = Inr ?s1"
      using True "1.prems" by (simp add: mem_write_def)
    have "\<exists>s'. reg_dump_loop (Suc i) vx ?s1 = Inr s' \<and> s' = ?s1\<lparr>memory := memory s'\<rparr> \<and>
        length (memory s') = MEMORY_SIZE \<and>
        (\<forall>k. Suc i \<le> k \<and> k \<le> vx \<longrightarrow>
             memory s' ! (unat (address_register ?s1) + k) = registers ?s1 ! k) \<and>
        (\<forall>a. a < unat (address_register ?s1) + Suc i \<or> unat (address_register ?s1) + vx < a \<longrightarrow>
             memory s' ! a = memory ?s1 ! a)"
      using "1.prems" by (intro "1.IH"[OF True rd wr]) simp_all
    then obtain s' where s':
      "reg_dump_loop (Suc i) vx ?s1 = Inr s'" "s' = ?s1\<lparr>memory := memory s'\<rparr>"
      "length (memory s') = MEMORY_SIZE"
      "\<forall>k. Suc i \<le> k \<and> k \<le> vx \<longrightarrow> memory s' ! (?I + k) = registers s ! k"
      "\<forall>a. a < ?I + Suc i \<or> ?I + vx < a \<longrightarrow> memory s' ! a = memory ?s1 ! a"
      by auto
    have run: "reg_dump_loop i vx s = Inr s'"
      using True rd wr s'(1) by (subst reg_dump_loop.simps) simp
    have eq: "s' = s\<lparr>memory := memory s'\<rparr>"
      by (subst s'(2)) simp
    have at_i: "memory s' ! (?I + i) = ?r"
      using s'(5) True "1.prems" by simp
    have cells: "\<forall>k. i \<le> k \<and> k \<le> vx \<longrightarrow> memory s' ! (?I + k) = registers s ! k"
    proof (intro allI impI)
      fix k assume k: "i \<le> k \<and> k \<le> vx"
      show "memory s' ! (?I + k) = registers s ! k"
      proof (cases "k = i")
        case True then show ?thesis using at_i by simp
      next
        case False then show ?thesis using k s'(4) by simp
      qed
    qed
    have rest: "\<forall>a. a < ?I + i \<or> ?I + vx < a \<longrightarrow> memory s' ! a = memory s ! a"
      using s'(5) True by auto
    show ?thesis using run eq s'(3) cells rest by blast
  qed
qed

lemma reg_load_loop_ok:
  "length (registers s) = REGISTER_COUNT \<Longrightarrow> vx < REGISTER_COUNT \<Longrightarrow>
   unat (address_register s) + vx < MEMORY_SIZE \<Longrightarrow>
   \<exists>s'. reg_load_loop i vx s = Inr s' \<and> s' = s\<lparr>registers := registers s'\<rparr> \<and>
        length (registers s') = REGISTER_COUNT \<and>
        (\<forall>k. i \<le> k \<and> k \<le> vx \<longrightarrow>
             registers s' ! k = memory s ! (unat (address_register s) + k)) \<and>
        (\<forall>k. k < i \<or> vx < k \<longrightarrow> registers s' ! k = registers s ! k)"
proof (induction i vx s rule: reg_load_loop.induct)
  case (1 i vx s)
  let ?I = "unat (address_register s)"
  show ?case
  proof (cases "i \<le> vx")
    case False
    then show ?thesis using "1.prems" by (subst reg_load_loop.simps) auto
  next
    case True
    let ?m = "memory s ! (?I + i)"
    let ?s1 = "s\<lparr>registers := (registers s)[i := ?m]\<rparr>"
    have i16: "i < 16" using True "1.prems" by (simp add: consts_defs)
    have chk: "ERRCHK (?I + i < MEMORY_SIZE) = Inr ()"
      using True "1.prems" by simp
    have rd: "mem_read (?I + i) s = Inr ?m"
      using True "1.prems" by (simp add: mem_read_def)
    have wr: "reg_write (of_nat i) ?m s = Inr ?s1"
      using i16 by (simp add: reg_write_def consts_defs unat_of_nat_u8)
    have "\<exists>s'. reg_load_loop (Suc i) vx ?s1 = Inr s' \<and> s' = ?s1\<lparr>registers := registers s'\<rparr> \<and>
        length (registers s') = REGISTER_COUNT \<and>
        (\<forall>k. Suc i \<le> k \<and> k \<le> vx \<longrightarrow>
             registers s' ! k = memory ?s1 ! (unat (address_register ?s1) + k)) \<and>
        (\<forall>k. k < Suc i \<or> vx < k \<longrightarrow> registers s' ! k = registers ?s1 ! k)"
      using "1.prems" by (intro "1.IH"[OF True chk rd wr]) simp_all
    then obtain s' where s':
      "reg_load_loop (Suc i) vx ?s1 = Inr s'" "s' = ?s1\<lparr>registers := registers s'\<rparr>"
      "length (registers s') = REGISTER_COUNT"
      "\<forall>k. Suc i \<le> k \<and> k \<le> vx \<longrightarrow> registers s' ! k = memory s ! (?I + k)"
      "\<forall>k. k < Suc i \<or> vx < k \<longrightarrow> registers s' ! k = registers ?s1 ! k"
      by auto
    have run: "reg_load_loop i vx s = Inr s'"
      using True chk rd wr s'(1) by (subst reg_load_loop.simps) simp
    have eq: "s' = s\<lparr>registers := registers s'\<rparr>"
      by (subst s'(2)) simp
    have at_i: "registers s' ! i = ?m"
      using s'(5) i16 "1.prems" by (simp add: consts_defs)
    have cells: "\<forall>k. i \<le> k \<and> k \<le> vx \<longrightarrow> registers s' ! k = memory s ! (?I + k)"
    proof (intro allI impI)
      fix k assume k: "i \<le> k \<and> k \<le> vx"
      show "registers s' ! k = memory s ! (?I + k)"
      proof (cases "k = i")
        case True then show ?thesis using at_i by simp
      next
        case False then show ?thesis using k s'(4) by simp
      qed
    qed
    have rest: "\<forall>k. k < i \<or> vx < k \<longrightarrow> registers s' ! k = registers s ! k"
      using s'(5) True by auto
    show ?thesis using run eq s'(3) cells rest by blast
  qed
qed

text \<open>
  C5. For a well-formed state, \<open>N < 16\<close> and an address register with
  \<open>address_register + N\<close> inside the memory, FX55 succeeds, leaves the address
  register and the registers alone and stores register \<open>k\<close> at
  \<open>address_register + k\<close> for every \<open>k \<le> N\<close>. Whatever the register file is
  overwritten with afterwards (\<open>regs'\<close>), FX65 with the same \<open>N\<close> and the same
  address register then succeeds, leaves the memory alone, and gives registers
  \<open>0..N\<close> the values they had before the store; the registers above \<open>N\<close> keep what
  they held before the load. When nothing was overwritten in between, the whole
  register file is the original one.
\<close>

theorem reg_dump_load_round_trip:
  assumes "wf_chip s" and "unat vx < REGISTER_COUNT"
    and "unat (address_register s) + unat vx < MEMORY_SIZE"
    and "length regs' = REGISTER_COUNT"
  shows "\<exists>s1 s2. reg_dump vx s = Inr s1 \<and> address_register s1 = address_register s \<and>
           registers s1 = registers s \<and>
           (\<forall>k \<le> unat vx. memory s1 ! (unat (address_register s) + k) = registers s ! k) \<and>
           reg_load vx (s1\<lparr>registers := regs'\<rparr>) = Inr s2 \<and>
           memory s2 = memory s1 \<and>
           (\<forall>k \<le> unat vx. registers s2 ! k = registers s ! k) \<and>
           (\<forall>k. unat vx < k \<longrightarrow> registers s2 ! k = regs' ! k) \<and>
           (regs' = registers s \<longrightarrow> registers s2 = registers s)"
proof -
  let ?I = "unat (address_register s)"
  have len: "length (memory s) = MEMORY_SIZE" "length (registers s) = REGISTER_COUNT"
    using assms(1) by (simp_all add: wf_chip_def)
  obtain s1 where s1: "reg_dump_loop 0 (unat vx) s = Inr s1" "s1 = s\<lparr>memory := memory s1\<rparr>"
      "\<forall>k. 0 \<le> k \<and> k \<le> unat vx \<longrightarrow> memory s1 ! (?I + k) = registers s ! k"
    using reg_dump_loop_ok[OF len(1) assms(2) assms(3), of 0] by blast
  have regs1: "registers s1 = registers s" by (subst s1(2)) simp
  have addr1: "address_register s1 = address_register s" by (subst s1(2)) simp
  let ?c = "s1\<lparr>registers := regs'\<rparr>"
  have "length (registers ?c) = REGISTER_COUNT" using assms(4) by simp
  moreover have "unat (address_register ?c) + unat vx < MEMORY_SIZE"
    using addr1 assms(3) by simp
  ultimately obtain s2 where s2: "reg_load_loop 0 (unat vx) ?c = Inr s2"
      "s2 = ?c\<lparr>registers := registers s2\<rparr>"
      "length (registers s2) = REGISTER_COUNT"
      "\<forall>k. 0 \<le> k \<and> k \<le> unat vx \<longrightarrow>
           registers s2 ! k = memory ?c ! (unat (address_register ?c) + k)"
      "\<forall>k. k < 0 \<or> unat vx < k \<longrightarrow> registers s2 ! k = registers ?c ! k"
    using reg_load_loop_ok[OF _ assms(2), of ?c 0] by blast
  have mem2: "memory s2 = memory s1" by (subst s2(2)) simp
  have stored: "\<forall>k \<le> unat vx. memory s1 ! (?I + k) = registers s ! k"
    using s1(3) by simp
  have low: "\<forall>k \<le> unat vx. registers s2 ! k = registers s ! k"
    using s2(4) s1(3) addr1 by simp
  have high: "\<forall>k. unat vx < k \<longrightarrow> registers s2 ! k = regs' ! k"
    using s2(5) by simp
  have same: "regs' = registers s \<longrightarrow> registers s2 = registers s"
  proof
    assume r: "regs' = registers s"
    have "\<And>k. registers s2 ! k = registers s ! k"
    proof -
      fix k show "registers s2 ! k = registers s ! k"
        using low high r by (cases "k \<le> unat vx") simp_all
    qed
    then show "registers s2 = registers s"
      using s2(3) len(2) by (intro nth_equalityI) simp_all
  qed
  have d: "reg_dump vx s = Inr s1" using assms(2) s1(1) by (simp add: reg_dump_def)
  have l: "reg_load vx ?c = Inr s2" using assms(2) s2(1) by (simp add: reg_load_def)
  show ?thesis using d l addr1 regs1 stored mem2 low high same by blast
qed

theorem reg_dump_load_round_trip_witness:
  "wf_chip (init_chip\<lparr>registers := (registers init_chip)[0 := 7, 1 := 9, 2 := 5],
                      address_register := 0x300\<rparr>) \<and>
   unat (1 :: u8) < REGISTER_COUNT \<and> unat (0x300 :: u16) + unat (1 :: u8) < MEMORY_SIZE \<and>
   length (replicate REGISTER_COUNT (0xAA :: u8)) = REGISTER_COUNT \<and>
   (\<exists>s1 s2. reg_dump 1 (init_chip\<lparr>registers := (registers init_chip)[0 := 7, 1 := 9, 2 := 5],
                                    address_register := 0x300\<rparr>) = Inr s1 \<and>
      reg_load 1 (s1\<lparr>registers := replicate REGISTER_COUNT 0xAA\<rparr>) = Inr s2 \<and>
      registers s2 ! 0 = 7 \<and> registers s2 ! 1 = 9 \<and> registers s2 ! 2 = 0xAA)"
proof -
  let ?s = "init_chip\<lparr>registers := (registers init_chip)[0 := 7, 1 := 9, 2 := 5],
                       address_register := 0x300\<rparr>"
  let ?r = "replicate REGISTER_COUNT (0xAA :: u8)"
  have h1: "wf_chip ?s" by (simp add: wf_chip_def init_chip_def)
  have h2: "unat (1 :: u8) < REGISTER_COUNT" by (simp add: consts_defs)
  have h3: "unat (0x300 :: u16) + unat (1 :: u8) < MEMORY_SIZE" by (simp add: consts_defs)
  then have h3': "unat (address_register ?s) + unat (1 :: u8) < MEMORY_SIZE" by simp
  have h4: "length ?r = REGISTER_COUNT" by simp
  obtain s1 s2 where r: "reg_dump 1 ?s = Inr s1" "reg_load 1 (s1\<lparr>registers := ?r\<rparr>) = Inr s2"
    "\<forall>k \<le> unat (1 :: u8). registers s2 ! k = registers ?s ! k"
    "\<forall>k. unat (1 :: u8) < k \<longrightarrow> registers s2 ! k = ?r ! k"
    using reg_dump_load_round_trip[OF h1 h2 h3' h4] by blast
  have "registers s2 ! 0 = 7 \<and> registers s2 ! 1 = 9"
    using r(3) by (simp add: init_chip_def consts_defs)
  moreover have "registers s2 ! 2 = 0xAA" using r(4) by (simp add: consts_defs)
  ultimately have "\<exists>s1 s2. reg_dump 1 ?s = Inr s1 \<and>
      reg_load 1 (s1\<lparr>registers := ?r\<rparr>) = Inr s2 \<and>
      registers s2 ! 0 = 7 \<and> registers s2 ! 1 = 9 \<and> registers s2 ! 2 = 0xAA"
    using r(1,2) by blast
  then show ?thesis using h1 h2 h3 h4 by blast
qed

subsection \<open>Binary-coded decimal\<close>

lemma bcd_digits:
  fixes v :: u8
  shows "unat (v div 100) = unat v div 100 mod 10"
    and "unat ((v div 10) mod 10) = unat v div 10 mod 10"
    and "unat (v mod 10) = unat v mod 10"
proof -
  have "unat v < 2 ^ 8" using unsigned_less[of v, where 'a=nat] by simp
  then have "unat v < 256" by simp
  then show "unat (v div 100) = unat v div 100 mod 10"
    by (simp add: unat_div)
  show "unat ((v div 10) mod 10) = unat v div 10 mod 10" by (simp add: unat_div unat_mod)
  show "unat (v mod 10) = unat v mod 10" by (simp add: unat_mod)
qed

lemma bcd_run:
  assumes "unat vx < REGISTER_COUNT" and "unat (address_register s) + 2 < MEMORY_SIZE"
  shows "bcd vx s = Inr (s\<lparr>memory := (memory s)
           [unat (address_register s) := registers s ! unat vx div 100,
            unat (address_register s) + 1 := (registers s ! unat vx div 10) mod 10,
            unat (address_register s) + 2 := registers s ! unat vx mod 10]\<rparr>)"
  using assms by (simp add: bcd_def reg_read_def mem_write_def)

text \<open>
  C6, amended. For a well-formed state, a register index below 16 and an address
  register whose three cells lie in the memory (\<open>address_register + 2 < 4096\<close>),
  FX33 succeeds, changes nothing but the memory, and stores the hundreds, tens and
  units digit of the register value in the cells at \<open>address_register\<close>, \<open>+ 1\<close>
  and \<open>+ 2\<close>, leaving every other cell as it was; the value 1 gives (0, 0, 1) and
  the value 199 gives (1, 9, 9).
\<close>

theorem bcd_writes_digits:
  assumes "wf_chip s" and "unat vx < REGISTER_COUNT"
    and "unat (address_register s) + 2 < MEMORY_SIZE"
  shows "\<exists>s'. bcd vx s = Inr s' \<and> s' = s\<lparr>memory := memory s'\<rparr> \<and>
     unat (memory s' ! unat (address_register s)) = unat (registers s ! unat vx) div 100 mod 10 \<and>
     unat (memory s' ! (unat (address_register s) + 1)) = unat (registers s ! unat vx) div 10 mod 10 \<and>
     unat (memory s' ! (unat (address_register s) + 2)) = unat (registers s ! unat vx) mod 10 \<and>
     (\<forall>a. a \<noteq> unat (address_register s) \<and> a \<noteq> unat (address_register s) + 1 \<and>
          a \<noteq> unat (address_register s) + 2 \<longrightarrow> memory s' ! a = memory s ! a) \<and>
     (registers s ! unat vx = 1 \<longrightarrow>
        [memory s' ! unat (address_register s), memory s' ! (unat (address_register s) + 1),
         memory s' ! (unat (address_register s) + 2)] = [0, 0, 1]) \<and>
     (registers s ! unat vx = 199 \<longrightarrow>
        [memory s' ! unat (address_register s), memory s' ! (unat (address_register s) + 1),
         memory s' ! (unat (address_register s) + 2)] = [1, 9, 9])"
proof -
  let ?I = "unat (address_register s)"
  let ?v = "registers s ! unat vx"
  define s' where "s' = s\<lparr>memory := (memory s)
     [?I := ?v div 100, ?I + 1 := (?v div 10) mod 10, ?I + 2 := ?v mod 10]\<rparr>"
  have len: "length (memory s) = MEMORY_SIZE" using assms(1) by (simp add: wf_chip_def)
  have run: "bcd vx s = Inr s'" unfolding s'_def using assms(2,3) by (rule bcd_run)
  have eq: "s' = s\<lparr>memory := memory s'\<rparr>" by (simp add: s'_def)
  have c0: "memory s' ! ?I = ?v div 100" using len assms(3) by (simp add: s'_def)
  have c1: "memory s' ! (?I + 1) = (?v div 10) mod 10" using len assms(3) by (simp add: s'_def)
  have c2: "memory s' ! (?I + 2) = ?v mod 10" using len assms(3) by (simp add: s'_def)
  have d0: "unat (memory s' ! ?I) = unat ?v div 100 mod 10"
    unfolding c0 by (rule bcd_digits(1))
  have d1: "unat (memory s' ! (?I + 1)) = unat ?v div 10 mod 10"
    unfolding c1 by (rule bcd_digits(2))
  have d2: "unat (memory s' ! (?I + 2)) = unat ?v mod 10"
    unfolding c2 by (rule bcd_digits(3))
  have rest: "\<forall>a. a \<noteq> ?I \<and> a \<noteq> ?I + 1 \<and> a \<noteq> ?I + 2 \<longrightarrow> memory s' ! a = memory s ! a"
    by (simp add: s'_def)
  have e1: "?v = 1 \<longrightarrow> [memory s' ! ?I, memory s' ! (?I + 1), memory s' ! (?I + 2)] = [0, 0, 1]"
    unfolding c0 c1 c2 by simp
  have e199: "?v = 199 \<longrightarrow>
      [memory s' ! ?I, memory s' ! (?I + 1), memory s' ! (?I + 2)] = [1, 9, 9]"
    unfolding c0 c1 c2 by simp
  show ?thesis using run eq d0 d1 d2 rest e1 e199 by blast
qed

theorem bcd_writes_digits_witness:
  "wf_chip (init_chip\<lparr>registers := (registers init_chip)[3 := 199], address_register := 0x300\<rparr>) \<and>
   unat (3 :: u8) < REGISTER_COUNT \<and>
   unat (0x300 :: u16) + 2 < MEMORY_SIZE \<and>
   (\<exists>s'. bcd 3 (init_chip\<lparr>registers := (registers init_chip)[3 := 199],
                          address_register := 0x300\<rparr>) = Inr s' \<and>
         [memory s' ! 0x300, memory s' ! 0x301, memory s' ! 0x302] = [1, 9, 9])"
proof -
  let ?s = "init_chip\<lparr>registers := (registers init_chip)[3 := 199], address_register := 0x300\<rparr>"
  have h1: "wf_chip ?s" by (simp add: wf_chip_def init_chip_def)
  have h2: "unat (3 :: u8) < REGISTER_COUNT" by (simp add: consts_defs)
  have h3: "unat (address_register ?s) + 2 < MEMORY_SIZE" by (simp add: consts_defs)
  have v: "registers ?s ! unat (3 :: u8) = 199" by (simp add: init_chip_def consts_defs)
  obtain s' where "bcd 3 ?s = Inr s'"
    "registers ?s ! unat (3 :: u8) = 199 \<longrightarrow>
        [memory s' ! unat (address_register ?s), memory s' ! (unat (address_register ?s) + 1),
         memory s' ! (unat (address_register ?s) + 2)] = [1, 9, 9]"
    using bcd_writes_digits[OF h1 h2 h3] by blast
  then have "\<exists>s'. bcd 3 ?s = Inr s' \<and>
         [memory s' ! 0x300, memory s' ! 0x301, memory s' ! 0x302] = [1, 9, 9]"
    using v by (intro exI[of _ s']) simp
  then show ?thesis using h1 h2 h3 by simp
qed


text \<open>
  C6 without the bound on the address register: with \<open>address_register = 0xFFE\<close>
  (set by AFFE) the third store of FX33 goes to offset 4096, past the memory, and
  \<open>bcd\<close> has no check in front of it, so the three digits are not written to three
  memory cells.
\<close>

theorem bcd_past_memory_bound:
  "wf_chip (init_chip\<lparr>registers := (registers init_chip)[0 := 199], address_register := 0xFFE\<rparr>) \<and>
   unat (0 :: u8) < REGISTER_COUNT \<and>
   bcd 0 (init_chip\<lparr>registers := (registers init_chip)[0 := 199], address_register := 0xFFE\<rparr>)
     = Inl OutOfBounds"
  by (simp add: bcd_def reg_read_def mem_write_def wf_chip_def init_chip_def consts_defs)


subsection \<open>Jump\<close>

lemma jmp_guard_iff:
  fixes p addr :: u16
  assumes "addr \<le> 0x0FFF"
  shows "(ucast p :: u64) - 2 = ucast addr \<longleftrightarrow> addr = p - 2"
proof (cases "2 \<le> p")
  case True
  have "2 \<le> (ucast p :: u64)" using True by (simp add: word_le_nat_alt unat_ucast_16_64)
  then have "unat ((ucast p :: u64) - 2) = unat p - 2"
    by (simp add: unat_sub unat_ucast_16_64)
  moreover have "unat (p - 2) = unat p - 2" using True by (simp add: unat_sub)
  ultimately show ?thesis
    by (auto simp: word_unat_eq_iff unat_ucast_16_64)
next
  case False
  then have "unat p < 2" by (simp add: word_le_nat_alt)
  then have "unat p = 0 \<or> unat p = 1" by arith
  then have p: "p = 0 \<or> p = 1" by (auto simp: word_unat_eq_iff)
  have a: "unat addr \<le> 4095" using assms by (simp add: word_le_nat_alt)
  have big: "\<And>w :: u64. 4095 < unat w \<Longrightarrow> w \<noteq> ucast addr"
    using a by (auto simp: word_unat_eq_iff unat_ucast_16_64)
  have far: "\<And>w :: u16. 4095 < unat w \<Longrightarrow> addr \<noteq> w"
    using a by (auto simp: word_unat_eq_iff)
  from p show ?thesis
  proof
    assume "p = 0"
    then show ?thesis using big[of "-2"] far[of "-2"] by simp
  next
    assume "p = 1"
    then show ?thesis using big[of "-1"] far[of "-1"]
      by (simp add: unsigned_minus_1_eq_mask mask_eq_exp_minus_1)
  qed
qed

text \<open>
  C7. For a 12-bit target, 1NNN is fatal when the target is the address of the jump
  itself, that is the program counter after the fetch minus the width of one
  instruction, and sets the program counter to the target otherwise, changing
  nothing else.
\<close>

theorem jmp_self_guard:
  "addr \<le> 0x0FFF \<Longrightarrow>
   jmp addr s = (if addr = pc s - of_nat OPCODE_SIZE then Inl Fatal else Inr (s\<lparr>pc := addr\<rparr>))"
  using jmp_guard_iff[of addr "pc s"] by (simp add: jmp_def consts_defs)

theorem jmp_self_guard_witness:
  "(0x200 :: u16) \<le> 0x0FFF \<and> jmp 0x200 (init_chip\<lparr>pc := 0x202\<rparr>) = Inl Fatal \<and>
   (0x300 :: u16) \<le> 0x0FFF \<and>
   jmp 0x300 (init_chip\<lparr>pc := 0x202\<rparr>) = Inr (init_chip\<lparr>pc := 0x300\<rparr>)"
proof -
  have h1: "(0x200 :: u16) \<le> 0x0FFF" by simp
  have h2: "(0x300 :: u16) \<le> 0x0FFF" by simp
  show ?thesis
    using h1 h2 jmp_self_guard[OF h1, of "init_chip\<lparr>pc := 0x202\<rparr>"]
      jmp_self_guard[OF h2, of "init_chip\<lparr>pc := 0x202\<rparr>"]
    by (simp add: consts_defs)
qed

subsection \<open>Timers\<close>

text \<open>
  C8. When the timer driver fires (at least \<open>1000 / TIMER_RATE\<close> ticks since the last
  firing), each timer that is not zero goes down by exactly one and a timer that
  is zero stays zero, so neither wraps below zero; when the driver does not fire,
  it leaves the whole state, both timers included, unchanged.
\<close>

theorem timer_driver_decrements:
  "(1000 div TIMER_RATE \<le> unat (now - timer_start s) \<longrightarrow>
      unat (delay_timer (timer_driver now s)) =
        (if delay_timer s = 0 then 0 else unat (delay_timer s) - 1) \<and>
      unat (sound_timer (timer_driver now s)) =
        (if sound_timer s = 0 then 0 else unat (sound_timer s) - 1) \<and>
      unat (delay_timer (timer_driver now s)) \<le> unat (delay_timer s) \<and>
      unat (sound_timer (timer_driver now s)) \<le> unat (sound_timer s)) \<and>
   (\<not> 1000 div TIMER_RATE \<le> unat (now - timer_start s) \<longrightarrow> timer_driver now s = s)"
  by (auto simp: timer_driver_def consts_defs Let_def unat_minus_one)

theorem timer_driver_decrements_witness:
  "1000 div TIMER_RATE \<le> unat ((17 :: u32) - timer_start (init_chip\<lparr>delay_timer := 5\<rparr>)) \<and>
   unat (delay_timer (timer_driver 17 (init_chip\<lparr>delay_timer := 5\<rparr>))) = 4 \<and>
   unat (sound_timer (timer_driver 17 (init_chip\<lparr>delay_timer := 5\<rparr>))) = 0 \<and>
   \<not> 1000 div TIMER_RATE \<le> unat ((3 :: u32) - timer_start (init_chip\<lparr>delay_timer := 5\<rparr>)) \<and>
   timer_driver 3 (init_chip\<lparr>delay_timer := 5\<rparr>) = init_chip\<lparr>delay_timer := 5\<rparr>"
  using timer_driver_decrements[of 17 "init_chip\<lparr>delay_timer := 5\<rparr>"]
    timer_driver_decrements[of 3 "init_chip\<lparr>delay_timer := 5\<rparr>"]
  by (simp add: init_chip_def consts_defs)

subsection \<open>Add immediate\<close>

text \<open>
  C9. For a well-formed state and a destination index below 16 other than 15, 7XNN
  succeeds, changes nothing but the register file, leaves register 15 and every
  register other than the destination as they were, and adds the immediate to the
  destination modulo 256: no carry is recorded anywhere.
\<close>

theorem add_frame:
  assumes "wf_chip s" and "unat vx < REGISTER_COUNT" and "vx \<noteq> 0xf"
  shows "\<exists>s'. add vx val s = Inr s' \<and> s' = s\<lparr>registers := registers s'\<rparr> \<and>
        registers s' ! 15 = registers s ! 15 \<and>
        (\<forall>k < REGISTER_COUNT. k \<noteq> unat vx \<longrightarrow> registers s' ! k = registers s ! k) \<and>
        registers s' ! unat vx = registers s ! unat vx + val"
proof -
  let ?s = "s\<lparr>registers := (registers s)[unat vx := registers s ! unat vx + val]\<rparr>"
  have 1: "add vx val s = Inr ?s"
    using assms by (simp add: add_def reg_read_def reg_write_def)
  have "unat vx \<noteq> unat (0xf :: u8)"
    using assms(3) by (simp only: word_unat_eq_iff not_False_eq_True)
  then have ne: "unat vx \<noteq> 15" by simp
  have 2: "registers ?s ! 15 = registers s ! 15"
    using ne by simp
  have 3: "\<forall>k < REGISTER_COUNT. k \<noteq> unat vx \<longrightarrow> registers ?s ! k = registers s ! k"
    by simp
  have 4: "registers ?s ! unat vx = registers s ! unat vx + val"
    using assms by (simp add: wf_chip_def)
  show ?thesis using 1 2 3 4 by (intro exI[of _ ?s]) simp
qed

theorem add_frame_witness:
  "wf_chip (init_chip\<lparr>registers := (registers init_chip)[2 := 200, 15 := 1]\<rparr>) \<and>
   unat (2 :: u8) < REGISTER_COUNT \<and> (2 :: u8) \<noteq> 0xf \<and>
   (\<exists>s'. add 2 100 (init_chip\<lparr>registers := (registers init_chip)[2 := 200, 15 := 1]\<rparr>) = Inr s' \<and>
      registers s' ! 15 = 1 \<and> registers s' ! 2 = 44)"
proof -
  let ?s = "init_chip\<lparr>registers := (registers init_chip)[2 := 200, 15 := 1]\<rparr>"
  have h1: "wf_chip ?s" by (simp add: wf_chip_def init_chip_def)
  have h2: "unat (2 :: u8) < REGISTER_COUNT" by (simp add: consts_defs)
  have h3: "(2 :: u8) \<noteq> 0xf" by simp
  obtain s' where r: "add 2 100 ?s = Inr s'" "registers s' ! 15 = registers ?s ! 15"
    "registers s' ! unat (2 :: u8) = registers ?s ! unat (2 :: u8) + 100"
    using add_frame[OF h1 h2 h3, of 100] by blast
  have "registers s' ! 15 = 1 \<and> registers s' ! 2 = 44"
    using r(2,3) by (simp add: init_chip_def consts_defs)
  then have "\<exists>s'. add 2 100 ?s = Inr s' \<and> registers s' ! 15 = 1 \<and> registers s' ! 2 = 44"
    using r(1) by blast
  then show ?thesis using h1 h2 h3 by simp
qed

subsection \<open>Random byte\<close>

lemma rnd_byte_le: "unat ((of_nat (r mod 255) :: u8) AND msk) \<le> 254"
proof -
  have "unat ((of_nat (r mod 255) :: u8) AND msk) \<le> unat (of_nat (r mod 255) :: u8)"
    by (rule word_and_le2 [THEN word_le_nat_alt [THEN iffD1]])
  also have "\<dots> = r mod 255" by (simp add: unat_of_nat)
  also have "\<dots> \<le> 254" by simp
  finally show ?thesis .
qed

text \<open>
  C10. For every value \<open>r\<close> of the pseudo-random source and every immediate, CXNN
  (on a well-formed state, register index below 16) stores \<open>(r mod 255) AND\<close> the
  immediate in the destination; that byte is at most 254 and so never 255.
\<close>

theorem rnd_never_255:
  assumes "wf_chip s" and "unat vx < REGISTER_COUNT"
  shows "\<exists>s'. rnd vx msk r s = Inr s' \<and>
       registers s' ! unat vx = (of_nat (r mod 255) :: u8) AND msk \<and>
       unat (registers s' ! unat vx) \<le> 254 \<and> registers s' ! unat vx \<noteq> 255"
proof -
  let ?b = "(of_nat (r mod 255) :: u8) AND msk"
  let ?s = "s\<lparr>registers := (registers s)[unat vx := ?b]\<rparr>"
  have 1: "rnd vx msk r s = Inr ?s"
    using assms by (simp add: rnd_def reg_write_def)
  have 2: "registers ?s ! unat vx = ?b"
    using assms by (simp add: wf_chip_def)
  have 3: "unat ?b \<le> 254" by (rule rnd_byte_le)
  have 4: "?b \<noteq> 255" using 3 by auto
  show ?thesis using 1 2 3 4 by (intro exI[of _ ?s]) simp
qed

theorem rnd_never_255_witness:
  "wf_chip init_chip \<and> unat (3 :: u8) < REGISTER_COUNT \<and>
   (\<exists>s'. rnd 3 0xFF 509 init_chip = Inr s' \<and> registers s' ! 3 = 254)"
proof -
  have h2: "unat (3 :: u8) < REGISTER_COUNT" by (simp add: consts_defs)
  obtain s' where r: "rnd 3 0xFF 509 init_chip = Inr s'"
    "registers s' ! unat (3 :: u8) = (of_nat (509 mod 255) :: u8) AND 0xFF"
    using rnd_never_255[OF wf_init_chip h2, of "0xFF" 509] by blast
  have "registers s' ! 3 = 254" using r(2) by simp
  then have "\<exists>s'. rnd 3 0xFF 509 init_chip = Inr s' \<and> registers s' ! 3 = 254"
    using r(1) by blast
  then show ?thesis using wf_init_chip h2 by simp
qed

subsection \<open>Decoder\<close>

text \<open>The operand fields: a 12-bit address and two register indices below 16.\<close>

lemma decode_NNN_le: "(opcode :: u16) AND 0x0fff \<le> 0x0fff"
  by (rule word_and_le1)

lemma decode_X_lt: "unat (ucast (drop_bit 8 ((opcode :: u16) AND 0x0f00)) :: u8) < REGISTER_COUNT"
proof -
  have "unat (opcode AND 0x0f00) \<le> unat (0x0f00 :: u16)"
    by (rule word_and_le1 [THEN word_le_nat_alt [THEN iffD1]])
  then have "unat (opcode AND 0x0f00) div 256 < 16" by simp
  then have d: "unat (drop_bit 8 (opcode AND 0x0f00)) < 16"
    by (simp add: unat_drop_bit_eq drop_bit_eq_div unat_div)
  have "unat (ucast (drop_bit 8 (opcode AND 0x0f00)) :: u8)
      = take_bit 8 (unat (drop_bit 8 (opcode AND 0x0f00)))"
    by (simp add: unsigned_ucast_eq)
  also have "\<dots> = unat (drop_bit 8 (opcode AND 0x0f00))"
    using d by (simp add: take_bit_nat_eq_self)
  finally show ?thesis using d by (simp add: consts_defs)
qed

lemma decode_Y_lt: "unat (ucast (drop_bit 4 ((opcode :: u16) AND 0x00f0)) :: u8) < REGISTER_COUNT"
proof -
  have "unat (opcode AND 0x00f0) \<le> unat (0x00f0 :: u16)"
    by (rule word_and_le1 [THEN word_le_nat_alt [THEN iffD1]])
  then have "unat (opcode AND 0x00f0) div 16 < 16" by simp
  then have d: "unat (drop_bit 4 (opcode AND 0x00f0)) < 16"
    by (simp add: unat_drop_bit_eq drop_bit_eq_div unat_div)
  have "unat (ucast (drop_bit 4 (opcode AND 0x00f0)) :: u8)
      = take_bit 8 (unat (drop_bit 4 (opcode AND 0x00f0)))"
    by (simp add: unsigned_ucast_eq)
  also have "\<dots> = unat (drop_bit 4 (opcode AND 0x00f0))"
    using d by (simp add: take_bit_nat_eq_self)
  finally show ?thesis using d by (simp add: consts_defs)
qed

text \<open>
  The whole cycle on a 1NNN opcode: fatal when NNN is the address the opcode was
  fetched from, otherwise the program counter becomes NNN.
\<close>

lemma instruction_cycle_jmp:
  assumes "fetch (timer_driver (ticks h) s) = Inr opcode" and "opcode AND 0xf000 = 0x1000"
  shows "instruction_cycle h s =
     (if opcode AND 0x0fff = pc s then Inl Fatal
      else Inr ((timer_driver (ticks h) s)\<lparr>pc := opcode AND 0x0fff\<rparr>))"
proof -
  let ?t = "timer_driver (ticks h) s"
  have pc0: "pc ?t = pc s" by (simp add: timer_driver_def Let_def)
  have "instruction_cycle h s = jmp (opcode AND 0x0fff) (skip ?t)"
    using assms by (simp add: instruction_cycle_def execute_def Let_def)
  also have "\<dots> = (if opcode AND 0x0fff = pc (skip ?t) - of_nat OPCODE_SIZE then Inl Fatal
      else Inr ((skip ?t)\<lparr>pc := opcode AND 0x0fff\<rparr>))"
    using jmp_guard_iff[where addr="opcode AND 0x0fff" and p="pc (skip ?t)", OF decode_NNN_le]
    by (simp add: jmp_def consts_defs)
  also have "\<dots> = (if opcode AND 0x0fff = pc s then Inl Fatal
      else Inr (?t\<lparr>pc := opcode AND 0x0fff\<rparr>))"
    by (simp add: skip_def pc0)
  finally show ?thesis .
qed


lemma timer_driver_frame:
  "memory (timer_driver now s) = memory s" "pc (timer_driver now s) = pc s"
  "registers (timer_driver now s) = registers s" "stack (timer_driver now s) = stack s"
  "stack_register (timer_driver now s) = stack_register s"
  "display (timer_driver now s) = display s"
  "address_register (timer_driver now s) = address_register s"
  by (simp_all add: timer_driver_def Let_def)

text \<open>
  A program whose first instruction, at \<open>0x200\<close>, is \<open>1200\<close>: the first cycle is fatal.
\<close>

lemma self_jump_rejected:
  "instruction_cycle h (init_chip\<lparr>memory := (memory init_chip)[0x200 := 0x12, 0x201 := 0x00]\<rparr>)
     = Inl Fatal"
proof -
  let ?s = "init_chip\<lparr>memory := (memory init_chip)[0x200 := 0x12, 0x201 := 0x00]\<rparr>"
  let ?t = "timer_driver (ticks h) ?s"
  have r0: "mem_read (unat (pc ?t)) ?t = Inr 0x12"
    by (simp add: mem_read_def timer_driver_frame init_chip_def consts_defs)
  have r1: "mem_read (unat (pc ?t) + 1) ?t = Inr 0x00"
    by (simp add: mem_read_def timer_driver_frame init_chip_def consts_defs)
  have f: "fetch ?t = Inr 0x1200"
    unfolding fetch_def r0 r1 by (simp add: convert_endianess_def)
  have c: "(0x1200 :: u16) AND 0xf000 = 0x1000" by simp
  have p: "(0x1200 :: u16) AND 0x0fff = pc ?s" by (simp add: init_chip_def)
  show ?thesis
    using instruction_cycle_jmp[OF f c] p by simp
qed


subsection \<open>Flag register of the carry, borrow and shift instructions\<close>

text \<open>
  When the destination is not register 15 (and, for the addition, the two operands
  are different registers), the handlers leave in register 15 the bit their source
  computes, which is 0 or 1.
\<close>

lemma unat_ne_15: "(vx :: u8) \<noteq> 0xf \<Longrightarrow> unat vx \<noteq> 15"
proof -
  assume "vx \<noteq> 0xf"
  then have "unat vx \<noteq> unat (0xf :: u8)" by (simp only: word_unat_eq_iff not_False_eq_True)
  then show ?thesis by simp
qed

lemma carry_iff: "(ry :: u8) > rx + ry \<longleftrightarrow> 256 \<le> unat rx + unat ry"
proof -
  have "ry \<le> ry + rx \<longleftrightarrow> unat ry + unat rx < 2 ^ LENGTH(8)"
    by (rule no_olen_add_nat)
  then show ?thesis by (auto simp: add.commute not_le)
qed

lemma add_reg_flag:
  assumes "wf_chip s" and "unat vx < REGISTER_COUNT" and "unat vy < REGISTER_COUNT"
    and "vx \<noteq> vy"
  shows "\<exists>s'. add_reg vx vy s = Inr s' \<and>
     registers s' ! 15 =
       of_bool8 (256 \<le> unat (registers s ! unat vx) + unat (registers s ! unat vy))"
proof -
  have len: "length (registers s) = 16" using assms(1) by (simp add: wf_chip_def consts_defs)
  have ne: "unat vx \<noteq> unat vy" using assms(4) by (simp add: word_unat_eq_iff)
  show ?thesis
    using assms(2,3) ne len
    by (simp add: add_reg_def reg_read_def reg_write_def consts_defs carry_iff)
qed

lemma sub_reg_flag:
  assumes "wf_chip s" and "unat vx < REGISTER_COUNT" and "unat vy < REGISTER_COUNT"
    and "vx \<noteq> 0xf"
  shows "\<exists>s'. sub_reg vx vy s = Inr s' \<and>
     registers s' ! 15 = of_bool8 (registers s ! unat vx > registers s ! unat vy)"
proof -
  have len: "length (registers s) = 16" using assms(1) by (simp add: wf_chip_def consts_defs)
  show ?thesis
    using assms(2,3) unat_ne_15[OF assms(4)] len
    by (simp add: sub_reg_def reg_read_def reg_write_def consts_defs)
qed

lemma subn_reg_flag:
  assumes "wf_chip s" and "unat vx < REGISTER_COUNT" and "unat vy < REGISTER_COUNT"
    and "vx \<noteq> 0xf"
  shows "\<exists>s'. subn_reg vx vy s = Inr s' \<and>
     registers s' ! 15 = of_bool8 (registers s ! unat vy > registers s ! unat vx)"
proof -
  have len: "length (registers s) = 16" using assms(1) by (simp add: wf_chip_def consts_defs)
  show ?thesis
    using assms(2,3) unat_ne_15[OF assms(4)] len
    by (simp add: subn_reg_def reg_read_def reg_write_def consts_defs)
qed

lemma shr_reg_flag:
  assumes "wf_chip s" and "unat vx < REGISTER_COUNT" and "vx \<noteq> 0xf"
  shows "\<exists>s'. shr_reg vx s = Inr s' \<and> registers s' ! 15 = registers s ! unat vx AND 1"
proof -
  have len: "length (registers s) = 16" using assms(1) by (simp add: wf_chip_def consts_defs)
  show ?thesis
    using assms(2) unat_ne_15[OF assms(3)] len
    by (simp add: shr_reg_def reg_read_def reg_write_def consts_defs)
qed

lemma shl_reg_flag:
  assumes "wf_chip s" and "unat vx < REGISTER_COUNT" and "vx \<noteq> 0xf"
  shows "\<exists>s'. shl_reg vx s = Inr s' \<and> registers s' ! 15 = drop_bit 7 (registers s ! unat vx)"
proof -
  have len: "length (registers s) = 16" using assms(1) by (simp add: wf_chip_def consts_defs)
  show ?thesis
    using assms(2) unat_ne_15[OF assms(3)] len
    by (simp add: shl_reg_def reg_read_def reg_write_def consts_defs)
qed

lemma flag_bits: "of_bool8 b \<in> {0, 1}" "(w :: u8) AND 1 \<in> {0, 1}" "drop_bit 7 (w :: u8) \<in> {0, 1}"
proof -
  show "of_bool8 b \<in> {0, 1}" by (simp add: of_bool8_def)
  show "(w :: u8) AND 1 \<in> {0, 1}" by (simp add: and_one_eq mod_2_eq_odd flip: of_bool_eq_iff)
  have "unat (drop_bit 7 w) < 2"
    using unsigned_less[of w, where 'a=nat] by (simp add: unat_drop_bit_eq drop_bit_eq_div unat_div)
  then have "unat (drop_bit 7 w) = 0 \<or> unat (drop_bit 7 w) = 1" by arith
  then show "drop_bit 7 (w :: u8) \<in> {0, 1}" by (auto simp: word_unat_eq_iff)
qed


text \<open>
  C1. The final flag is not in \<open>{0, 1}\<close>, or not the carry, borrow or shifted-out
  bit, when the destination is register 15 or when the addition has the same
  register on both sides. 8XYE with X = 15 and
  \<open>registers[15] = 0x80\<close> writes the flag 1 and then shifts that very register,
  leaving 2, which is neither in \<open>{0, 1}\<close> nor the bit shifted out. 8XY5 and 8XY7 with
  X = 15 leave a difference (254 and 6 below) in register 15; 8XY6 with X = 15 and
  an odd value leaves 0 although the bit shifted out is 1; 8XY4 with X = Y and the
  value \<open>0x80\<close> leaves 0 although \<open>0x80 + 0x80\<close> carries.
\<close>

theorem flag_register_aliased_destination:
  "map_sum id (\<lambda>s. registers s ! 15)
     (shl_reg 0xf (init_chip\<lparr>registers := (registers init_chip)[15 := 0x80]\<rparr>)) = Inr 2 \<and>
   map_sum id (\<lambda>s. registers s ! 15)
     (sub_reg 0xf 0 (init_chip\<lparr>registers := (registers init_chip)[0 := 3, 15 := 5]\<rparr>)) = Inr 254 \<and>
   map_sum id (\<lambda>s. registers s ! 15)
     (subn_reg 0xf 0 (init_chip\<lparr>registers := (registers init_chip)[0 := 7, 15 := 1]\<rparr>)) = Inr 6 \<and>
   map_sum id (\<lambda>s. registers s ! 15)
     (shr_reg 0xf (init_chip\<lparr>registers := (registers init_chip)[15 := 1]\<rparr>)) = Inr 0 \<and>
   map_sum id (\<lambda>s. registers s ! 15)
     (add_reg 0 0 (init_chip\<lparr>registers := (registers init_chip)[0 := 0x80]\<rparr>)) = Inr 0"
  by (simp add: shl_reg_def sub_reg_def subn_reg_def shr_reg_def add_reg_def
        reg_read_def reg_write_def init_chip_def consts_defs of_bool8_def)

subsection \<open>Memory bound of the register block instructions\<close>

text \<open>
  \<open>reg_load\<close> checks every address before it reads: on a well-formed state it never
  accesses outside the memory, and it is fatal exactly when the register index or
  the last address of the transfer is out of range.
\<close>

lemma reg_load_loop_checked:
  "length (registers s) = REGISTER_COUNT \<Longrightarrow> vx < REGISTER_COUNT \<Longrightarrow>
   reg_load_loop i vx s \<noteq> Inl OutOfBounds"
proof (induction i vx s rule: reg_load_loop.induct)
  case (1 i vx s)
  let ?I = "unat (address_register s)"
  show ?case
  proof (cases "i \<le> vx \<and> ?I + i < MEMORY_SIZE")
    case False
    then show ?thesis by (subst reg_load_loop.simps) auto
  next
    case True
    let ?m = "memory s ! (?I + i)"
    let ?s1 = "s\<lparr>registers := (registers s)[i := ?m]\<rparr>"
    have i16: "i < 16" using True "1.prems" by (simp add: consts_defs)
    have chk: "ERRCHK (?I + i < MEMORY_SIZE) = Inr ()" using True by simp
    have rd: "mem_read (?I + i) s = Inr ?m" using True by (simp add: mem_read_def)
    have wr: "reg_write (of_nat i) ?m s = Inr ?s1"
      using i16 by (simp add: reg_write_def consts_defs unat_of_nat_u8)
    have "reg_load_loop (Suc i) vx ?s1 \<noteq> Inl OutOfBounds"
      using True "1.prems" by (intro "1.IH"[OF _ chk rd wr]) simp_all
    then show ?thesis using True chk rd wr by (subst reg_load_loop.simps) simp
  qed
qed

lemma reg_load_loop_fatal:
  "length (registers s) = REGISTER_COUNT \<Longrightarrow> vx < REGISTER_COUNT \<Longrightarrow> i \<le> vx \<Longrightarrow>
   MEMORY_SIZE \<le> unat (address_register s) + vx \<Longrightarrow>
   reg_load_loop i vx s = Inl Fatal"
proof (induction i vx s rule: reg_load_loop.induct)
  case (1 i vx s)
  let ?I = "unat (address_register s)"
  show ?case
  proof (cases "?I + i < MEMORY_SIZE")
    case False
    then show ?thesis using "1.prems" by (subst reg_load_loop.simps) simp
  next
    case True
    let ?m = "memory s ! (?I + i)"
    let ?s1 = "s\<lparr>registers := (registers s)[i := ?m]\<rparr>"
    have le: "i \<le> vx" using "1.prems" by simp
    have i16: "i < 16" using "1.prems" by (simp add: consts_defs)
    have chk: "ERRCHK (?I + i < MEMORY_SIZE) = Inr ()" using True by simp
    have rd: "mem_read (?I + i) s = Inr ?m" using True by (simp add: mem_read_def)
    have wr: "reg_write (of_nat i) ?m s = Inr ?s1"
      using i16 by (simp add: reg_write_def consts_defs unat_of_nat_u8)
    have "reg_load_loop (Suc i) vx ?s1 = Inl Fatal"
      using True "1.prems" by (intro "1.IH"[OF le chk rd wr]) auto
    then show ?thesis using le chk rd wr by (subst reg_load_loop.simps) simp
  qed
qed

lemma reg_load_guarded:
  assumes "wf_chip s"
  shows "reg_load vx s \<noteq> Inl OutOfBounds"
    and "\<not> unat vx < REGISTER_COUNT \<or> MEMORY_SIZE \<le> unat (address_register s) + unat vx
         \<Longrightarrow> reg_load vx s = Inl Fatal"
proof -
  have len: "length (registers s) = REGISTER_COUNT" using assms by (simp add: wf_chip_def)
  show "reg_load vx s \<noteq> Inl OutOfBounds"
    using reg_load_loop_checked[OF len, of "unat vx" 0]
    by (cases "unat vx < REGISTER_COUNT") (simp_all add: reg_load_def)
  assume "\<not> unat vx < REGISTER_COUNT \<or> MEMORY_SIZE \<le> unat (address_register s) + unat vx"
  then show "reg_load vx s = Inl Fatal"
    using reg_load_loop_fatal[OF len, of "unat vx" 0]
    by (cases "unat vx < REGISTER_COUNT") (auto simp add: reg_load_def)
qed

text \<open>\<open>reg_dump\<close> has the register check only: the same transfer runs into the unchecked store.\<close>

lemma reg_dump_loop_unchecked:
  "length (registers s) = REGISTER_COUNT \<Longrightarrow> vx < REGISTER_COUNT \<Longrightarrow> i \<le> vx \<Longrightarrow>
   MEMORY_SIZE \<le> unat (address_register s) + vx \<Longrightarrow>
   reg_dump_loop i vx s = Inl OutOfBounds"
proof (induction i vx s rule: reg_dump_loop.induct)
  case (1 i vx s)
  let ?I = "unat (address_register s)"
  let ?r = "registers s ! i"
  have le: "i \<le> vx" using "1.prems" by simp
  have i16: "i < 16" using "1.prems" by (simp add: consts_defs)
  have rd: "reg_read (of_nat i) s = Inr ?r"
    using i16 by (simp add: reg_read_def consts_defs unat_of_nat_u8)
  show ?case
  proof (cases "?I + i < MEMORY_SIZE")
    case False
    then have "mem_write (?I + i) ?r s = Inl OutOfBounds" by (simp add: mem_write_def)
    then show ?thesis using le rd by (subst reg_dump_loop.simps) simp
  next
    case True
    let ?s1 = "s\<lparr>memory := (memory s)[?I + i := ?r]\<rparr>"
    have wr: "mem_write (?I + i) ?r s = Inr ?s1" using True by (simp add: mem_write_def)
    have "reg_dump_loop (Suc i) vx ?s1 = Inl OutOfBounds"
      using True "1.prems" by (intro "1.IH"[OF le rd wr]) auto
    then show ?thesis using le rd wr by (subst reg_dump_loop.simps) simp
  qed
qed

lemma reg_dump_unchecked:
  assumes "wf_chip s" and "unat vx < REGISTER_COUNT"
    and "MEMORY_SIZE \<le> unat (address_register s) + unat vx"
  shows "reg_dump vx s = Inl OutOfBounds"
proof -
  have len: "length (registers s) = REGISTER_COUNT" using assms(1) by (simp add: wf_chip_def)
  show ?thesis
    using reg_dump_loop_unchecked[OF len assms(2) _ assms(3), of 0] assms(2)
    by (simp add: reg_dump_def)
qed


text \<open>
  C2. FX55 with N = 1 and \<open>address_register = 0xFFF\<close> stores register 0 at 4095 and
  then register 1 at offset 4096, past the memory, with no check in between and no
  fatal error; FX65 on the same state is fatal before it reads.
\<close>

theorem reg_dump_past_memory_bound:
  "reg_dump 1 (init_chip\<lparr>address_register := 0xFFF\<rparr>) = Inl OutOfBounds \<and>
   reg_load 1 (init_chip\<lparr>address_register := 0xFFF\<rparr>) = Inl Fatal"
  by (simp add: reg_dump_def reg_load_def reg_read_def reg_write_def mem_read_def mem_write_def
        init_chip_def consts_defs)

subsection \<open>Sprite drawing\<close>

text \<open>
  A pixel inside the display: the flag is set when the cell was set, and the cell
  is XORed with 1.
\<close>

lemma draw_pixel_ok:
  assumes "unat i < DISPLAY_WIDTH" and "unat j < DISPLAY_HEIGHT"
  shows "draw_pixel i j s =
     Inr (s\<lparr>registers := (if display s ! (unat i + unat j * DISPLAY_WIDTH) \<noteq> 0
                           then (registers s)[15 := 1] else registers s),
             display := (display s)[unat i + unat j * DISPLAY_WIDTH :=
                           display s ! (unat i + unat j * DISPLAY_WIDTH) XOR 1]\<rparr>)"
proof -
  have "unat i + unat j * 64 < 2048" using assms by (simp add: consts_defs)
  then show ?thesis
    using assms
    by (simp add: draw_pixel_def display_idx_def disp_read_def disp_write_def reg_write_def
          consts_defs)
qed

lemma draw_row_ok:
  "unat (address_register s) + j1 < MEMORY_SIZE \<Longrightarrow>
   \<exists>s'. draw_row i0 j0 j1 i1 s = Inr s' \<and> memory s' = memory s \<and>
        address_register s' = address_register s \<and> displaymode s' = displaymode s"
proof (induction i0 j0 j1 i1 s rule: draw_row.induct)
  case (1 i0 j0 j1 i1 s)
  let ?b = "memory s ! (unat (address_register s) + j1)"
  let ?iw = "of_nat ((unat i0 + i1) mod DISPLAY_WIDTH) :: u8"
  let ?jw = "of_nat ((unat j0 + j1) mod DISPLAY_HEIGHT) :: u8"
  let ?ic = "of_nat (unat i0 + i1) :: u8"
  let ?jc = "of_nat (unat j0 + j1) :: u8"
  have rd: "mem_read (unat (address_register s) + j1) s = Inr ?b"
    using "1.prems" by (simp add: mem_read_def)
  have wrap_in: "unat ?iw < DISPLAY_WIDTH" "unat ?jw < DISPLAY_HEIGHT"
    by (simp_all add: consts_defs unat_of_nat_u8)
  consider (stop) "\<not> i1 < 8"
    | (unset) "i1 < 8" "\<not> ?b AND drop_bit i1 0x80 \<noteq> 0"
    | (wrap) "i1 < 8" "?b AND drop_bit i1 0x80 \<noteq> 0" "displaymode s = WRAP"
    | (break) "i1 < 8" "?b AND drop_bit i1 0x80 \<noteq> 0" "displaymode s \<noteq> WRAP"
        "unat ?ic \<ge> DISPLAY_WIDTH \<or> unat ?jc \<ge> DISPLAY_HEIGHT"
    | (clamp) "i1 < 8" "?b AND drop_bit i1 0x80 \<noteq> 0" "displaymode s \<noteq> WRAP"
        "\<not> (unat ?ic \<ge> DISPLAY_WIDTH \<or> unat ?jc \<ge> DISPLAY_HEIGHT)"
    by blast
  then show ?case
  proof cases
    case stop
    then show ?thesis by (subst draw_row.simps) simp
  next
    case unset
    have "\<exists>s'. draw_row i0 j0 j1 (Suc i1) s = Inr s' \<and> memory s' = memory s \<and>
        address_register s' = address_register s \<and> displaymode s' = displaymode s"
      using "1.prems" by (intro "1.IH"(3)[OF unset(1) rd unset(2)])
    then show ?thesis using unset rd by (subst draw_row.simps) simp
  next
    case wrap
    obtain s1 where px: "draw_pixel ?iw ?jw s = Inr s1" "memory s1 = memory s"
      "address_register s1 = address_register s" "displaymode s1 = displaymode s"
      using draw_pixel_ok[OF wrap_in, of s] by simp
    have "\<exists>s'. draw_row i0 j0 j1 (Suc i1) s1 = Inr s' \<and> memory s' = memory s1 \<and>
        address_register s' = address_register s1 \<and> displaymode s' = displaymode s1"
      using "1.prems" px by (intro "1.IH"(1)[OF wrap(1) rd wrap(2,3) px(1)]) simp
    then show ?thesis using wrap rd px by (subst draw_row.simps) simp
  next
    case break
    then show ?thesis using rd by (subst draw_row.simps) auto
  next
    case clamp
    have in_b: "unat ?ic < DISPLAY_WIDTH" "unat ?jc < DISPLAY_HEIGHT"
      using clamp(4) by simp_all
    obtain s1 where px: "draw_pixel ?ic ?jc s = Inr s1" "memory s1 = memory s"
      "address_register s1 = address_register s" "displaymode s1 = displaymode s"
      using draw_pixel_ok[OF in_b, of s] by simp
    have "\<exists>s'. draw_row i0 j0 j1 (Suc i1) s1 = Inr s' \<and> memory s' = memory s1 \<and>
        address_register s' = address_register s1 \<and> displaymode s' = displaymode s1"
      using "1.prems" px by (intro "1.IH"(2)[OF clamp(1) rd clamp(2,3,4) px(1)]) simp
    then show ?thesis using clamp rd px by (subst draw_row.simps) simp
  qed
qed

lemma draw_rows_ok:
  "unat (address_register s) + height \<le> MEMORY_SIZE \<Longrightarrow>
   \<exists>s'. draw_rows i0 j0 height j1 s = Inr s'"
proof (induction i0 j0 height j1 s rule: draw_rows.induct)
  case (1 i0 j0 height j1 s)
  show ?case
  proof (cases "j1 < height")
    case False
    then show ?thesis by (subst draw_rows.simps) simp
  next
    case True
    then have "unat (address_register s) + j1 < MEMORY_SIZE" using "1.prems" by simp
    then obtain s1 where row: "draw_row i0 j0 j1 0 s = Inr s1"
      "address_register s1 = address_register s"
      using draw_row_ok[of s j1 i0 j0 0] by blast
    have "\<exists>s'. draw_rows i0 j0 height (Suc j1) s1 = Inr s'"
      using "1.prems" row(2) by (intro "1.IH"[OF True row(1)]) simp
    then show ?thesis using True row(1) by (subst draw_rows.simps) simp
  qed
qed

lemma draw_ok:
  assumes "unat vx < REGISTER_COUNT" and "unat vy < REGISTER_COUNT"
    and "unat (address_register s) + unat height \<le> MEMORY_SIZE"
  shows "\<exists>s'. draw vx vy height s = Inr s'"
  using assms draw_rows_ok[of "s\<lparr>registers := (registers s)[15 := 0]\<rparr>" "unat height"]
  by (simp add: draw_def reg_read_def reg_write_def consts_defs)


text \<open>
  C3. Under CLAMP the coordinates are the sums truncated to 8 bits before they are
  compared with the display size. With \<open>registers[0] = 250\<close> and the sprite byte
  \<open>0x02\<close> the only set pixel has the column \<open>250 + 6 = 256\<close>, past the edge; the
  truncated column is 0, so the pixel is drawn in cell \<open>(0, 0)\<close>.
\<close>

theorem draw_clamp_coordinate_truncated:
  "displaymode init_chip = CLAMP \<and> display init_chip ! 0 = 0 \<and>
   draw 0 1 1 (init_chip\<lparr>registers := (registers init_chip)[0 := 250],
       memory := (memory init_chip)[0x300 := 0x02], address_register := 0x300\<rparr>)
   = Inr (init_chip\<lparr>registers := (registers init_chip)[0 := 250, 15 := 0],
       memory := (memory init_chip)[0x300 := 0x02], address_register := 0x300,
       display := (display init_chip)[0 := 1]\<rparr>)"
  by (simp add: draw_def draw_pixel_def display_idx_def disp_read_def disp_write_def
        reg_read_def reg_write_def mem_read_def init_chip_def consts_defs)

end
